theory Spec2Isabelle
  imports Main "HOL-Library.Word"
begin

unbundle bit_operations_syntax

section \<open>reorder\_elf.py: bytes, slices and struct\<close>

text \<open>
  The script reads a whole ELF file into a \<^verbatim>\<open>bytearray\<close>, edits that buffer and
  writes it out. A buffer is a list of bytes, a Python integer is an \<^typ>\<open>int\<close>.
  The two ways in which the script stops early are values of one type: a
  \<^verbatim>\<open>return False\<close> after a diagnostic (the first three constructors, named after
  the message printed) and an uncaught Python exception (the others).
  The \<^verbatim>\<open>print\<close> calls that only report progress are left out.
\<close>

type_synonym byte = "8 word"

datatype error =
    NotAnElfFile          \<comment> \<open>"Error: Not an ELF file!", return False\<close>
  | Only32BitSupported    \<comment> \<open>"Error: Only 32-bit ELF supported", return False\<close>
  | OnlyLittleEndian      \<comment> \<open>"Error: Only little-endian supported", return False\<close>
  | StructError           \<comment> \<open>struct.error raised by unpack, pack or pack\_into\<close>
  | IndexError            \<comment> \<open>IndexError raised by data[4], data[5] or code\_segs[0]\<close>
  | FileNotFoundError     \<comment> \<open>raised by open(input\_file, 'rb')\<close>
  | ValueError            \<comment> \<open>raised by min or max of an empty sequence\<close>

definition ebind :: "error + 'a \<Rightarrow> ('a \<Rightarrow> error + 'b) \<Rightarrow> error + 'b" where
  "ebind m f = (case m of Inl e \<Rightarrow> Inl e | Inr x \<Rightarrow> f x)"

text \<open>A sequential loop \<^verbatim>\<open>for i in xs: state = step(i, state)\<close> that stops at the first exception.\<close>

fun fold_err :: "('a \<Rightarrow> 's \<Rightarrow> error + 's) \<Rightarrow> 'a list \<Rightarrow> 's \<Rightarrow> error + 's" where
  "fold_err f [] s = Inr s"
| "fold_err f (x # xs) s = ebind (f x s) (fold_err f xs)"

text \<open>A loop that appends one computed element per iteration.\<close>

fun map_err :: "('a \<Rightarrow> error + 'b) \<Rightarrow> 'a list \<Rightarrow> error + 'b list" where
  "map_err f [] = Inr []"
| "map_err f (x # xs) = ebind (f x) (\<lambda>y. ebind (map_err f xs) (\<lambda>ys. Inr (y # ys)))"

text \<open>\<^verbatim>\<open>range(n)\<close> for a Python integer \<open>n\<close> (empty when \<open>n \<le> 0\<close>).\<close>

definition py_range :: "int \<Rightarrow> int list" where
  "py_range n = map int [0..<nat n]"

text \<open>
  Python's \<^verbatim>\<open>xs[a:b]\<close>: a negative bound counts from the end, and both bounds are
  clamped to the length, so a slice never raises.
\<close>

definition norm_index :: "int \<Rightarrow> int \<Rightarrow> int" where
  "norm_index n i = (if i < 0 then max 0 (n + i) else min n i)"

definition py_slice :: "'a list \<Rightarrow> int \<Rightarrow> int \<Rightarrow> 'a list" where
  "py_slice xs a b =
     (let n = int (length xs); lo = norm_index n a; hi = norm_index n b
      in take (nat (hi - lo)) (drop (nat lo) xs))"

text \<open>\<^verbatim>\<open>data[i]\<close> on a bytearray, for the non-negative constant indices the script uses.\<close>

definition index :: "byte list \<Rightarrow> nat \<Rightarrow> error + int" where
  "index xs i = (if i < length xs then Inr (uint (xs ! i)) else Inl IndexError)"

text \<open>\<^verbatim>\<open>struct.unpack('<I', bs)[0]\<close> and \<^verbatim>\<open>struct.unpack('<H', bs)[0]\<close>:
  struct.error unless the buffer has exactly the size of the format.\<close>

fun unpack_I :: "byte list \<Rightarrow> error + int" where
  "unpack_I [b0, b1, b2, b3] =
     Inr (uint b0 + 256 * uint b1 + 65536 * uint b2 + 16777216 * uint b3)"
| "unpack_I _ = Inl StructError"

fun unpack_H :: "byte list \<Rightarrow> error + int" where
  "unpack_H [b0, b1] = Inr (uint b0 + 256 * uint b1)"
| "unpack_H _ = Inl StructError"

text \<open>The idiom \<^verbatim>\<open>struct.unpack('<I', buf[off:off+4])[0]\<close>, and the same for \<^verbatim>\<open>'<H'\<close>.\<close>

definition get_I :: "byte list \<Rightarrow> int \<Rightarrow> error + int" where
  "get_I buf off = unpack_I (py_slice buf off (off + 4))"

definition get_H :: "byte list \<Rightarrow> int \<Rightarrow> error + int" where
  "get_H buf off = unpack_H (py_slice buf off (off + 2))"

text \<open>The four (two) little-endian bytes of a value that is known to be in range.\<close>

definition bytes_I :: "int \<Rightarrow> byte list" where
  "bytes_I v = [word_of_int v, word_of_int (v div 256),
                word_of_int (v div 65536), word_of_int (v div 16777216)]"

definition bytes_H :: "int \<Rightarrow> byte list" where
  "bytes_H v = [word_of_int v, word_of_int (v div 256)]"

text \<open>\<^verbatim>\<open>struct.pack('<I', v)\<close>: struct.error when \<open>v\<close> is negative or needs more than 32 bits.\<close>

definition pack_I :: "int \<Rightarrow> error + byte list" where
  "pack_I v = (if 0 \<le> v \<and> v \<le> 4294967295 then Inr (bytes_I v) else Inl StructError)"

definition pack_H :: "int \<Rightarrow> error + byte list" where
  "pack_H v = (if 0 \<le> v \<and> v \<le> 65535 then Inr (bytes_H v) else Inl StructError)"

text \<open>
  \<^verbatim>\<open>struct.pack_into(fmt, buf, off, v)\<close>: the value is packed first, then written over
  the bytes at \<open>off\<close>; struct.error when the value does not fit the format or the
  buffer has no room at \<open>off\<close>. Every offset the script passes is non-negative
  (a constant, or a sum of unpacked unsigned values and of a value that an earlier
  pack\_into has accepted); a negative one is an error here.
\<close>

definition write_at :: "byte list \<Rightarrow> int \<Rightarrow> byte list \<Rightarrow> error + byte list" where
  "write_at buf off bs =
     (if 0 \<le> off \<and> off + int (length bs) \<le> int (length buf)
      then Inr (take (nat off) buf @ bs @ drop (nat off + length bs) buf)
      else Inl StructError)"

definition pack_into_I :: "byte list \<Rightarrow> int \<Rightarrow> int \<Rightarrow> error + byte list" where
  "pack_into_I buf off v = ebind (pack_I v) (write_at buf off)"

definition pack_into_H :: "byte list \<Rightarrow> int \<Rightarrow> int \<Rightarrow> error + byte list" where
  "pack_into_H buf off v = ebind (pack_H v) (write_at buf off)"

section \<open>merge\_load\_segments\<close>

text \<open>The dictionary built for each program header (lines 31-40), with the ELF field names.\<close>

record segment =
  p_type :: int
  p_offset :: int
  p_vaddr :: int
  p_paddr :: int
  p_filesz :: int
  p_memsz :: int
  p_flags :: int
  p_align :: int

definition PT_LOAD :: int where
  "PT_LOAD = 1"

text \<open>Lines 22-40: the eight fields of one entry, \<^verbatim>\<open>ph[0:4]\<close> to \<^verbatim>\<open>ph[28:32]\<close>; a slice shorter
  than four bytes is a struct.error.\<close>

definition parse_ph :: "byte list \<Rightarrow> error + segment" where
  "parse_ph ph =
     ebind (get_I ph 0) (\<lambda>v_type.
     ebind (get_I ph 4) (\<lambda>v_offset.
     ebind (get_I ph 8) (\<lambda>v_vaddr.
     ebind (get_I ph 12) (\<lambda>v_paddr.
     ebind (get_I ph 16) (\<lambda>v_filesz.
     ebind (get_I ph 20) (\<lambda>v_memsz.
     ebind (get_I ph 24) (\<lambda>v_flags.
     ebind (get_I ph 28) (\<lambda>v_align.
       Inr \<lparr>p_type = v_type, p_offset = v_offset, p_vaddr = v_vaddr, p_paddr = v_paddr,
            p_filesz = v_filesz, p_memsz = v_memsz, p_flags = v_flags,
            p_align = v_align\<rparr>))))))))"

text \<open>Lines 18-40: the loop over \<^verbatim>\<open>range(e_phnum)\<close>.\<close>

definition parse_segments :: "byte list \<Rightarrow> int \<Rightarrow> int \<Rightarrow> error + segment list" where
  "parse_segments ph_data e_phentsize e_phnum =
     map_err (\<lambda>i. let offset = i * e_phentsize
                   in parse_ph (py_slice ph_data offset (offset + e_phentsize)))
             (py_range e_phnum)"

text \<open>
  Lines 43-51: the loop that keeps the last loadable entry with vaddr 0 in
  \<^verbatim>\<open>storage_seg\<close> and appends every other loadable entry to \<^verbatim>\<open>code_segs\<close>.
\<close>

fun classify :: "segment list \<Rightarrow> segment option \<Rightarrow> segment list
    \<Rightarrow> segment option \<times> segment list" where
  "classify [] storage_seg code_segs = (storage_seg, code_segs)"
| "classify (seg # segs) storage_seg code_segs =
     (if p_type seg = PT_LOAD
      then (if p_vaddr seg = 0 then classify segs (Some seg) code_segs
            else classify segs storage_seg (code_segs @ [seg]))
      else classify segs storage_seg code_segs)"

text \<open>Python's \<^verbatim>\<open>min\<close> and \<^verbatim>\<open>max\<close> of a generator: ValueError on an empty one.\<close>

fun py_min :: "int list \<Rightarrow> error + int" where
  "py_min [] = Inl ValueError"
| "py_min (x # xs) = Inr (fold min xs x)"

fun py_max :: "int list \<Rightarrow> error + int" where
  "py_max [] = Inl ValueError"
| "py_max (x # xs) = Inr (fold max xs x)"

text \<open>Lines 66-89: the merged entry of two or more code segments.\<close>

definition merge_code :: "segment list \<Rightarrow> error + segment" where
  "merge_code code_segs =
     ebind (py_min (map p_offset code_segs)) (\<lambda>min_offset.
     ebind (py_min (map p_vaddr code_segs)) (\<lambda>min_vaddr.
     ebind (py_max (map (\<lambda>seg. p_offset seg + p_filesz seg) code_segs)) (\<lambda>max_end_file.
     ebind (py_max (map (\<lambda>seg. p_vaddr seg + p_memsz seg) code_segs)) (\<lambda>max_end_mem.
       let merged_filesz = max_end_file - min_offset;
           merged_memsz = max_end_mem - min_vaddr;
           merged_flags = fold (\<lambda>seg merged_flags. merged_flags OR p_flags seg) code_segs 0
       in Inr \<lparr>p_type = PT_LOAD, p_offset = min_offset, p_vaddr = min_vaddr,
               p_paddr = min_vaddr, p_filesz = merged_filesz, p_memsz = merged_memsz,
               p_flags = merged_flags, p_align = 4\<rparr>))))"

text \<open>Lines 62-93: the second entry of the new table, merged from several code
  segments or the only one as it is.\<close>

definition merged_code_seg :: "segment list \<Rightarrow> error + segment" where
  "merged_code_seg code_segs =
     (if length code_segs > 1 then merge_code code_segs
      else if 0 < length code_segs then Inr (code_segs ! 0)
      else Inl IndexError)"

text \<open>Lines 102-111: \<^verbatim>\<open>struct.pack('<IIIIIIII', ...)\<close> of one entry.\<close>

definition pack_segment :: "segment \<Rightarrow> error + byte list" where
  "pack_segment seg =
     ebind (map_err pack_I [p_type seg, p_offset seg, p_vaddr seg, p_paddr seg,
                            p_filesz seg, p_memsz seg, p_flags seg, p_align seg])
       (\<lambda>fields. Inr (concat fields))"

text \<open>
  The whole function. Without a storage segment, or without a code segment, it
  prints a warning and returns the table and the count it was given (lines 53-59).
\<close>

definition merge_load_segments :: "byte list \<Rightarrow> int \<Rightarrow> int \<Rightarrow> error + byte list \<times> int" where
  "merge_load_segments ph_data e_phentsize e_phnum =
     ebind (parse_segments ph_data e_phentsize e_phnum) (\<lambda>segments.
       case classify segments None [] of
         (None, code_segs) \<Rightarrow> Inr (ph_data, e_phnum)
       | (Some storage_seg, code_segs) \<Rightarrow>
           if length code_segs = 0 then Inr (ph_data, e_phnum)
           else
             ebind (merged_code_seg code_segs) (\<lambda>merged.
             let new_segments = [storage_seg, merged];
                 new_phnum = int (length new_segments)
             in ebind (map_err pack_segment new_segments) (\<lambda>entries.
                  Inr (concat entries, new_phnum))))"

section \<open>reorder\_elf\<close>

text \<open>Lines 197-210: one round of the loop that shifts the file offset of a written entry.\<close>

definition patch_ph_entry :: "int \<Rightarrow> int \<Rightarrow> int \<Rightarrow> int \<Rightarrow> int \<Rightarrow> byte list
    \<Rightarrow> error + byte list" where
  "patch_ph_entry new_phoff e_phentsize e_phoff ph_size i buf =
     (let ph_offset = new_phoff + i * e_phentsize;
          p_offset_in_ph = 4
      in ebind (get_I buf (ph_offset + p_offset_in_ph)) (\<lambda>v_offset.
           if v_offset > e_phoff
           then pack_into_I buf (ph_offset + p_offset_in_ph) (v_offset - ph_size)
           else Inr buf))"

text \<open>Lines 215-225: one round of the loop that shifts the data offset of a section header.\<close>

definition patch_sh_entry :: "int \<Rightarrow> int \<Rightarrow> int \<Rightarrow> int \<Rightarrow> int \<Rightarrow> byte list
    \<Rightarrow> error + byte list" where
  "patch_sh_entry sh_offset e_shentsize e_phoff ph_size i buf =
     (let sh_entry_offset = sh_offset + i * e_shentsize;
          sh_offset_in_sh = 16
      in ebind (get_I buf (sh_entry_offset + sh_offset_in_sh)) (\<lambda>sh_data_offset.
              if sh_data_offset > e_phoff \<and> sh_data_offset < 4294967295
              then pack_into_I buf (sh_entry_offset + sh_offset_in_sh)
                     (sh_data_offset - ph_size)
              else Inr buf))"

text \<open>
  Lines 173-225, for the table and the count that the merge returned: the old
  table is cut out, the new one is appended, and the header, the appended
  entries and the section headers are patched.
\<close>

definition rewrite_buffer :: "byte list \<Rightarrow> int \<Rightarrow> int \<Rightarrow> int \<Rightarrow> int \<Rightarrow> int \<Rightarrow> int
    \<Rightarrow> byte list \<Rightarrow> int \<Rightarrow> error + byte list" where
  "rewrite_buffer data e_phoff e_shoff e_phentsize e_shentsize e_shnum ph_size
       merged_ph_data new_phnum =
     (let data_without_ph = py_slice data 0 e_phoff
                            @ py_slice data (e_phoff + ph_size) (int (length data));
          new_phoff = int (length data_without_ph)
      in ebind (pack_into_I (data_without_ph @ merged_ph_data) 28 new_phoff) (\<lambda>buf1.
         ebind (pack_into_H buf1 44 new_phnum) (\<lambda>buf2.
         ebind (if e_shoff > e_phoff then pack_into_I buf2 32 (e_shoff - ph_size)
                else Inr buf2) (\<lambda>buf3.
         ebind (fold_err (patch_ph_entry new_phoff e_phentsize e_phoff ph_size)
                  (py_range new_phnum) buf3) (\<lambda>buf4.
         if e_shoff > e_phoff
         then fold_err (patch_sh_entry (e_shoff - ph_size) e_shentsize e_phoff ph_size)
                (py_range e_shnum) buf4
         else Inr buf4)))))"

text \<open>Lines 163-225, from the six header values read before.\<close>

definition relocate :: "byte list \<Rightarrow> int \<Rightarrow> int \<Rightarrow> int \<Rightarrow> int \<Rightarrow> int \<Rightarrow> int
    \<Rightarrow> error + byte list" where
  "relocate data e_phoff e_shoff e_phentsize e_phnum e_shentsize e_shnum =
     (let ph_size = e_phentsize * e_phnum;
          ph_data = py_slice data e_phoff (e_phoff + ph_size)
      in ebind (merge_load_segments ph_data e_phentsize e_phnum) (\<lambda>(merged_ph_data, new_phnum).
           rewrite_buffer data e_phoff e_shoff e_phentsize e_shentsize e_shnum ph_size
             merged_ph_data new_phnum))"

text \<open>
  Lines 124-139, the validation: the signature is compared first; then both
  identification bytes are read (lines 130-131), and only then is either checked.
\<close>

definition check_ident :: "byte list \<Rightarrow> error + unit" where
  "check_ident data =
     (if py_slice data 0 4 \<noteq> [0x7f, 0x45, 0x4c, 0x46] then Inl NotAnElfFile
      else
        ebind (index data 4) (\<lambda>ei_class.
        ebind (index data 5) (\<lambda>ei_data.
          if ei_class \<noteq> 1 then Inl Only32BitSupported
          else if ei_data \<noteq> 1 then Inl OnlyLittleEndian
          else Inr ())))"

text \<open>
  Lines 124-225: the validation, then the six header fields (lines 150-155), then
  the rest; the result is the buffer that line 229 writes. Nothing before line 174
  changes the buffer, so a run that the validation stops has not touched it.
\<close>

definition reorder_buffer :: "byte list \<Rightarrow> error + byte list" where
  "reorder_buffer data =
     ebind (check_ident data) (\<lambda>_.
       ebind (get_I data 28) (\<lambda>e_phoff.
       ebind (get_I data 32) (\<lambda>e_shoff.
       ebind (get_H data 42) (\<lambda>e_phentsize.
       ebind (get_H data 44) (\<lambda>e_phnum.
       ebind (get_H data 46) (\<lambda>e_shentsize.
       ebind (get_H data 48) (\<lambda>e_shnum.
         relocate data e_phoff e_shoff e_phentsize e_phnum e_shentsize e_shnum)))))))"

text \<open>
  The files: a path has a content or does not exist. \<^verbatim>\<open>reorder_elf\<close> opens the
  output file only at line 228, after every check and every edit of the buffer,
  so a run that stopped before leaves the files as they were. The result is
  \<open>Inr ()\<close> for \<^verbatim>\<open>return True\<close>.
\<close>

type_synonym files = "string \<rightharpoonup> byte list"

definition reorder_elf :: "files \<Rightarrow> string \<Rightarrow> string \<Rightarrow> files \<times> (error + unit)" where
  "reorder_elf fs input_file output_file =
     (case fs input_file of
        None \<Rightarrow> (fs, Inl FileNotFoundError)
      | Some data \<Rightarrow>
          (case reorder_buffer data of
             Inl e \<Rightarrow> (fs, Inl e)
           | Inr out \<Rightarrow> (fs(output_file \<mapsto> out), Inr ())))"

text \<open>
  Lines 235-247: the exit status of the script for the argument vector \<open>argv\<close>
  (0 when the interpreter reaches the end, 1 for \<^verbatim>\<open>sys.exit(1)\<close> and for an
  uncaught exception).
\<close>

definition main :: "files \<Rightarrow> string list \<Rightarrow> files \<times> nat" where
  "main fs argv =
     (if length argv \<noteq> 3 then (fs, 1)
      else (case reorder_elf fs (argv ! 1) (argv ! 2) of
              (fs', Inr _) \<Rightarrow> (fs', 0)
            | (fs', Inl e) \<Rightarrow> (fs', 1)))"

section \<open>What a reader of a file sees\<close>

text \<open>
  The program header table of a file, read the way the script reads it
  (lines 150-153, 163-167 and 18-40).
\<close>

definition read_table :: "byte list \<Rightarrow> error + segment list" where
  "read_table data =
     ebind (get_I data 28) (\<lambda>e_phoff.
     ebind (get_H data 42) (\<lambda>e_phentsize.
     ebind (get_H data 44) (\<lambda>e_phnum.
       parse_segments (py_slice data e_phoff (e_phoff + e_phentsize * e_phnum))
         e_phentsize e_phnum)))"

text \<open>
  The data offsets of the section headers of a file, read the way lines 151,
  154-155 and 215-220 read them (at the section header table of that file).
\<close>

definition read_sh_offsets :: "byte list \<Rightarrow> error + int list" where
  "read_sh_offsets data =
     ebind (get_I data 32) (\<lambda>e_shoff.
     ebind (get_H data 46) (\<lambda>e_shentsize.
     ebind (get_H data 48) (\<lambda>e_shnum.
       map_err (\<lambda>i. get_I data (e_shoff + i * e_shentsize + 16)) (py_range e_shnum))))"

text \<open>
  The same values without the bounds checks: the little-endian number at a
  position of a buffer that is known to hold it, and the entry made of eight.
\<close>

definition u32 :: "byte list \<Rightarrow> int \<Rightarrow> int" where
  "u32 xs k = uint (xs ! nat k) + 256 * uint (xs ! nat (k + 1))
              + 65536 * uint (xs ! nat (k + 2)) + 16777216 * uint (xs ! nat (k + 3))"

definition u16 :: "byte list \<Rightarrow> int \<Rightarrow> int" where
  "u16 xs k = uint (xs ! nat k) + 256 * uint (xs ! nat (k + 1))"

definition phdr :: "byte list \<Rightarrow> int \<Rightarrow> segment" where
  "phdr xs k = \<lparr>p_type = u32 xs k, p_offset = u32 xs (k + 4), p_vaddr = u32 xs (k + 8),
                p_paddr = u32 xs (k + 12), p_filesz = u32 xs (k + 16),
                p_memsz = u32 xs (k + 20), p_flags = u32 xs (k + 24),
                p_align = u32 xs (k + 28)\<rparr>"

definition program_headers :: "byte list \<Rightarrow> segment list" where
  "program_headers data =
     map (\<lambda>i. phdr data (u32 data 28 + i * u16 data 42)) (py_range (u16 data 44))"

text \<open>The two roles that lines 43-51 give to the entries of a file's table.\<close>

definition storage_seg :: "byte list \<Rightarrow> segment option" where
  "storage_seg data = fst (classify (program_headers data) None [])"

definition code_segs :: "byte list \<Rightarrow> segment list" where
  "code_segs data = snd (classify (program_headers data) None [])"

definition sh_offsets :: "byte list \<Rightarrow> int list" where
  "sh_offsets data =
     map (\<lambda>i. u32 data (u32 data 32 + i * u16 data 46 + 16)) (py_range (u16 data 48))"

text \<open>
  The inputs the theorems below are about: an ELF32 little-endian file of less
  than 4 GiB with the header complete, 32-byte program header entries, the
  program header table after the ELF header and inside the file; every program
  header with its file offset inside the file and not inside the program header
  table, and with file and memory ranges that do not wrap around 32 bits; and
  the section header table either not after the start of the program header
  table (the script leaves it alone then), or after its end and inside the file,
  with entries of at least 20 bytes and no data offset inside the program header
  table.
\<close>

definition valid_elf :: "byte list \<Rightarrow> bool" where
  "valid_elf data \<longleftrightarrow>
     (let size = int (length data);
          e_phoff = u32 data 28; e_shoff = u32 data 32;
          e_phnum = u16 data 44; e_shentsize = u16 data 46; e_shnum = u16 data 48;
          ph_size = 32 * e_phnum
      in 52 \<le> size \<and> size \<le> 4294967295
         \<and> take 4 data = [0x7f, 0x45, 0x4c, 0x46] \<and> data ! 4 = 1 \<and> data ! 5 = 1
         \<and> u16 data 42 = 32 \<and> 52 \<le> e_phoff \<and> e_phoff + ph_size \<le> size
         \<and> list_all (\<lambda>seg. p_offset seg \<le> size
                         \<and> (p_offset seg \<le> e_phoff \<or> e_phoff + ph_size \<le> p_offset seg)
                         \<and> p_offset seg + p_filesz seg \<le> 4294967295
                         \<and> p_vaddr seg + p_memsz seg \<le> 4294967296)
             (program_headers data)
         \<and> (e_shoff \<le> e_phoff
            \<or> e_phoff + ph_size \<le> e_shoff \<and> e_shoff + e_shnum * e_shentsize \<le> size
              \<and> (e_shnum = 0 \<or> 20 \<le> e_shentsize)
              \<and> list_all (\<lambda>v. v \<le> e_phoff \<or> e_phoff + ph_size \<le> v) (sh_offsets data)))"

text \<open>The shift that lines 205-206 apply to a file offset, and lines 223-224 to a data offset.\<close>

definition shifted :: "int \<Rightarrow> int \<Rightarrow> int \<Rightarrow> int" where
  "shifted e_phoff ph_size v = (if v > e_phoff then v - ph_size else v)"

definition shifted_sh :: "int \<Rightarrow> int \<Rightarrow> int \<Rightarrow> int" where
  "shifted_sh e_phoff ph_size v =
     (if v > e_phoff \<and> v < 4294967295 then v - ph_size else v)"

text \<open>An entry after lines 197-210: only its file offset can have changed.\<close>

definition moved :: "int \<Rightarrow> int \<Rightarrow> segment \<Rightarrow> segment" where
  "moved e_phoff ph_size seg = seg\<lparr>p_offset := shifted e_phoff ph_size (p_offset seg)\<rparr>"

section \<open>Notions used in the proofs\<close>

text \<open>Two buffers of one length that agree at every position outside \<open>D\<close>.\<close>

definition same_outside :: "int set \<Rightarrow> byte list \<Rightarrow> byte list \<Rightarrow> bool" where
  "same_outside D xs ys \<longleftrightarrow>
     length xs = length ys
     \<and> (\<forall>k. 0 \<le> k \<and> k < int (length xs) \<and> k \<notin> D \<longrightarrow> xs ! nat k = ys ! nat k)"

text \<open>The common shape of one round of either patch loop: read the number at
  \<open>pos\<close> and, when \<open>c\<close> holds of it, write it back less \<open>d\<close>.\<close>

definition patch_word :: "(int \<Rightarrow> bool) \<Rightarrow> int \<Rightarrow> int \<Rightarrow> byte list \<Rightarrow> error + byte list" where
  "patch_word c d pos buf =
     ebind (get_I buf pos) (\<lambda>v. if c v then pack_into_I buf pos (v - d) else Inr buf)"

text \<open>The buffer of lines 174-178 before any patch: \<open>S\<close> bytes cut at \<open>P\<close>, \<open>T\<close> appended.\<close>

definition cut_buffer :: "byte list \<Rightarrow> int \<Rightarrow> int \<Rightarrow> byte list \<Rightarrow> byte list" where
  "cut_buffer data P S T =
     (py_slice data 0 P @ py_slice data (P + S) (int (length data))) @ T"

text \<open>The 32 bytes of an entry whose fields fit 32 bits, and that condition.\<close>

definition seg_bytes :: "segment \<Rightarrow> byte list" where
  "seg_bytes seg = concat (map bytes_I [p_type seg, p_offset seg, p_vaddr seg, p_paddr seg,
                                        p_filesz seg, p_memsz seg, p_flags seg, p_align seg])"

definition seg_in_range :: "segment \<Rightarrow> bool" where
  "seg_in_range seg \<longleftrightarrow>
     list_all (\<lambda>v. 0 \<le> v \<and> v \<le> 4294967295)
       [p_type seg, p_offset seg, p_vaddr seg, p_paddr seg,
        p_filesz seg, p_memsz seg, p_flags seg, p_align seg]"

text \<open>What \<^const>\<open>merge_code\<close> returns for a non-empty list, with the extrema as those of
  sets, and what \<^const>\<open>merged_code_seg\<close> returns for a non-empty list.\<close>

definition merged_segment :: "segment list \<Rightarrow> segment" where
  "merged_segment cs =
     \<lparr>p_type = PT_LOAD, p_offset = Min (p_offset ` set cs), p_vaddr = Min (p_vaddr ` set cs),
      p_paddr = Min (p_vaddr ` set cs),
      p_filesz = Max ((\<lambda>c. p_offset c + p_filesz c) ` set cs) - Min (p_offset ` set cs),
      p_memsz = Max ((\<lambda>c. p_vaddr c + p_memsz c) ` set cs) - Min (p_vaddr ` set cs),
      p_flags = fold (\<lambda>c a. a OR p_flags c) cs 0, p_align = 4\<rparr>"

definition code_entry :: "segment list \<Rightarrow> segment" where
  "code_entry cs = (if 1 < length cs then merged_segment cs else cs ! 0)"

text \<open>
  The buffer that \<^const>\<open>rewrite_buffer\<close> returns, as a reader sees it: its length,
  the header fields, the appended entries with their file offsets shifted, and
  the section data offsets when the section header table was after the program
  header table.
\<close>

definition rewritten :: "byte list \<Rightarrow> int \<Rightarrow> int \<Rightarrow> int \<Rightarrow> int \<Rightarrow> int \<Rightarrow> byte list \<Rightarrow> int
    \<Rightarrow> byte list \<Rightarrow> bool" where
  "rewritten data P shoff se sn S T n out \<longleftrightarrow>
     int (length out) = int (length data) - S + 32 * n
     \<and> (\<forall>k<28. out ! k = data ! k)
     \<and> u16 out 42 = u16 data 42 \<and> u16 out 46 = u16 data 46 \<and> u16 out 48 = u16 data 48
     \<and> u32 out 28 = int (length data) - S \<and> u16 out 44 = n
     \<and> u32 out 32 = (if P < shoff then shoff - S else u32 data 32)
     \<and> (\<forall>i\<in>set (py_range n). phdr out (int (length data) - S + i * 32)
            = (phdr T (i * 32))\<lparr>p_offset := shifted P S (p_offset (phdr T (i * 32)))\<rparr>)
     \<and> (P < shoff \<longrightarrow> (\<forall>i\<in>set (py_range sn). u32 out (shoff - S + i * se + 16)
            = shifted_sh P S (u32 data (shoff + i * se + 16))))"

section \<open>Four small files\<close>

text \<open>An ELF32 header with the six fields the script reads, and a table entry
  from its eight fields.\<close>

definition header :: "int \<Rightarrow> int \<Rightarrow> int \<Rightarrow> int \<Rightarrow> int \<Rightarrow> int \<Rightarrow> byte list" where
  "header phoff shoff phentsize phnum shentsize shnum =
     [0x7f, 0x45, 0x4c, 0x46, 1, 1] @ replicate 22 0 @ bytes_I phoff @ bytes_I shoff
     @ replicate 6 0 @ bytes_H phentsize @ bytes_H phnum @ bytes_H shentsize @ bytes_H shnum
     @ replicate 2 0"

definition entry :: "int list \<Rightarrow> byte list" where
  "entry vs = concat (map bytes_I vs)"

text \<open>
  A file of 272 bytes: the header; a table of four entries at 52 (a loadable one
  at address 0, a loadable one at address 4096, a note entry, type 4, and a
  loadable one at address 4608); twelve bytes of contents at 180; and two section
  headers of 40 bytes at 192 with the data offsets 180 and 32.
\<close>

definition example_elf :: "byte list" where
  "example_elf = header 52 192 32 4 40 2
     @ entry [1, 180, 0, 0, 4, 4, 4, 4]
     @ entry [1, 184, 4096, 4096, 4, 4, 5, 16]
     @ entry [4, 188, 0, 0, 4, 4, 4, 4]
     @ entry [1, 188, 4608, 4608, 4, 8, 6, 8]
     @ [1, 2, 3, 4, 5, 6, 7, 8, 9, 10, 11, 12]
     @ replicate 16 0 @ bytes_I 180 @ replicate 20 0
     @ replicate 16 0 @ bytes_I 32 @ replicate 20 0"

text \<open>
  A file of 164 bytes with the section header table before the program header
  table: one section header at 52 with the data offset 156, a table of two
  loadable entries at 92 (one at address 0; one at address 32768 with the
  physical address 131072 and the alignment 4096), eight bytes of contents at
  156. Then the buffer that the script writes for it.
\<close>

definition single_code_elf :: "byte list" where
  "single_code_elf = header 92 52 32 2 40 1
     @ replicate 16 0 @ bytes_I 156 @ replicate 20 0
     @ entry [1, 156, 0, 0, 4, 4, 4, 4]
     @ entry [1, 160, 32768, 131072, 4, 4, 5, 4096]
     @ [1, 2, 3, 4, 5, 6, 7, 8]"

definition single_code_out :: "byte list" where
  "single_code_out = header 100 52 32 2 40 1
     @ replicate 16 0 @ bytes_I 156 @ replicate 20 0
     @ [1, 2, 3, 4, 5, 6, 7, 8]
     @ entry [1, 92, 0, 0, 4, 4, 4, 4]
     @ entry [1, 96, 32768, 131072, 4, 4, 5, 4096]"

text \<open>
  A file of 124 bytes with no loadable entry at address 0: a table of two
  entries at 52 (a loadable one at address 32768, and a note entry, type 4),
  eight bytes of contents at 116, no section header. Then the buffer that the
  script writes for it.
\<close>

definition no_storage_elf :: "byte list" where
  "no_storage_elf = header 52 0 32 2 40 0
     @ entry [1, 116, 32768, 32768, 4, 4, 5, 4]
     @ entry [4, 120, 0, 0, 4, 4, 4, 4]
     @ [1, 2, 3, 4, 5, 6, 7, 8]"

definition no_storage_out :: "byte list" where
  "no_storage_out = header 60 0 32 2 40 0
     @ [1, 2, 3, 4, 5, 6, 7, 8]
     @ entry [1, 52, 32768, 32768, 4, 4, 5, 4]
     @ entry [4, 56, 0, 0, 4, 4, 4, 4]"

text \<open>
  The same file with the file offset of its loadable entry changed to 60, a
  position inside the program header table (which occupies 52 to 115).
\<close>

definition bad_offset_elf :: "byte list" where
  "bad_offset_elf = header 52 0 32 2 40 0
     @ entry [1, 60, 32768, 32768, 4, 4, 5, 4]
     @ entry [4, 120, 0, 0, 4, 4, 4, 4]
     @ [1, 2, 3, 4, 5, 6, 7, 8]"

section \<open>Validation of the identification bytes\<close>

lemma ebind_Inr [simp]: "ebind (Inr x) f = f x"
  by (simp add: ebind_def)

lemma ebind_Inl [simp]: "ebind (Inl e) f = Inl e"
  by (simp add: ebind_def)

lemma ebind_eq_Inr: "ebind m f = Inr y \<longleftrightarrow> (\<exists>x. m = Inr x \<and> f x = Inr y)"
  by (cases m) simp_all

lemma check_ident_bad_magic:
  "py_slice data 0 4 \<noteq> [0x7f, 0x45, 0x4c, 0x46] \<Longrightarrow> check_ident data = Inl NotAnElfFile"
  by (simp add: check_ident_def)

lemma check_ident_bad_class:
  "py_slice data 0 4 = [0x7f, 0x45, 0x4c, 0x46] \<Longrightarrow> 6 \<le> length data \<Longrightarrow> data ! 4 \<noteq> 1
   \<Longrightarrow> check_ident data = Inl Only32BitSupported"
  by (simp add: check_ident_def index_def) (metis uint_1_eq word_uint_eq_iff)

lemma check_ident_bad_endian:
  "py_slice data 0 4 = [0x7f, 0x45, 0x4c, 0x46] \<Longrightarrow> 6 \<le> length data \<Longrightarrow> data ! 4 = 1
   \<Longrightarrow> data ! 5 \<noteq> 1 \<Longrightarrow> check_ident data = Inl OnlyLittleEndian"
  by (simp add: check_ident_def index_def) (metis uint_1_eq word_uint_eq_iff)

lemma check_ident_bad_fails:
  assumes "py_slice data 0 4 \<noteq> [0x7f, 0x45, 0x4c, 0x46]
           \<or> (4 < length data \<and> data ! 4 \<noteq> 1) \<or> (5 < length data \<and> data ! 5 \<noteq> 1)"
  shows "\<exists>e. check_ident data = Inl e"
  using assms
  by (simp add: check_ident_def index_def) (auto simp: word_uint_eq_iff)

text \<open>A run that the validation stops returns the validation's error: the rest
  (the header fields, the merge, every edit of the buffer) is not reached.\<close>

lemma reorder_buffer_stops: "check_ident data = Inl e \<Longrightarrow> reorder_buffer data = Inl e"
  by (simp add: reorder_buffer_def)

lemma reorder_elf_stops:
  "fs input_file = Some data \<Longrightarrow> check_ident data = Inl e
   \<Longrightarrow> reorder_elf fs input_file output_file = (fs, Inl e)"
  by (simp add: reorder_elf_def reorder_buffer_stops)

lemma main_stops:
  "fs input_file = Some data \<Longrightarrow> check_ident data = Inl e
   \<Longrightarrow> main fs [prog, input_file, output_file] = (fs, 1)"
  by (simp add: main_def reorder_elf_stops)

section \<open>Slices and little-endian numbers\<close>

lemma py_slice_nonneg:
  "0 \<le> a \<Longrightarrow> 0 \<le> b \<Longrightarrow> py_slice xs a b = take (nat (b - a)) (drop (nat a) xs)"
  by (auto simp: py_slice_def norm_index_def Let_def min_def)

lemma length_py_slice:
  "0 \<le> a \<Longrightarrow> a \<le> b \<Longrightarrow> b \<le> int (length xs) \<Longrightarrow> length (py_slice xs a b) = nat (b - a)"
  by (simp add: py_slice_nonneg)

lemma nth_py_slice:
  "0 \<le> a \<Longrightarrow> a \<le> b \<Longrightarrow> b \<le> int (length xs) \<Longrightarrow> i < nat (b - a)
   \<Longrightarrow> py_slice xs a b ! i = xs ! (nat a + i)"
  by (simp add: py_slice_nonneg)

lemma take4_drop:
  "n + 4 \<le> length xs
   \<Longrightarrow> take 4 (drop n xs) = [xs ! n, xs ! (n + 1), xs ! (n + 2), xs ! (n + 3)]"
  by (simp add: list_eq_iff_nth_eq less_Suc_eq numeral_eq_Suc add.commute) 

lemma take2_drop:
  "n + 2 \<le> length xs \<Longrightarrow> take 2 (drop n xs) = [xs ! n, xs ! (n + 1)]"
  by (simp add: list_eq_iff_nth_eq less_Suc_eq numeral_eq_Suc add.commute)

lemma get_I_u32:
  "0 \<le> k \<Longrightarrow> k + 4 \<le> int (length xs) \<Longrightarrow> get_I xs k = Inr (u32 xs k)"
proof -
  assume k: "0 \<le> k" "k + 4 \<le> int (length xs)"
  then have "py_slice xs k (k + 4) = take 4 (drop (nat k) xs)"
    by (simp add: py_slice_nonneg)
  also have "\<dots> = [xs ! nat k, xs ! (nat k + 1), xs ! (nat k + 2), xs ! (nat k + 3)]"
    using k by (intro take4_drop) linarith
  finally show ?thesis
    using k by (simp add: get_I_def u32_def nat_add_distrib)
qed

lemma get_H_u16:
  "0 \<le> k \<Longrightarrow> k + 2 \<le> int (length xs) \<Longrightarrow> get_H xs k = Inr (u16 xs k)"
proof -
  assume k: "0 \<le> k" "k + 2 \<le> int (length xs)"
  then have "py_slice xs k (k + 2) = take 2 (drop (nat k) xs)"
    by (simp add: py_slice_nonneg)
  also have "\<dots> = [xs ! nat k, xs ! (nat k + 1)]"
    using k by (intro take2_drop) linarith
  finally show ?thesis
    using k by (simp add: get_H_def u16_def nat_add_distrib)
qed

lemma uint_byte: "0 \<le> uint (b :: byte) \<and> uint b \<le> 255"
  using uint_bounded [of b] by simp

lemma u32_bounds: "0 \<le> u32 xs k \<and> u32 xs k \<le> 4294967295"
  using uint_byte [of "xs ! nat k"] uint_byte [of "xs ! nat (k + 1)"]
        uint_byte [of "xs ! nat (k + 2)"] uint_byte [of "xs ! nat (k + 3)"]
  by (simp add: u32_def)

lemma u16_bounds: "0 \<le> u16 xs k \<and> u16 xs k \<le> 65535"
  using uint_byte [of "xs ! nat k"] uint_byte [of "xs ! nat (k + 1)"]
  by (simp add: u16_def)

lemma le32_sum:
  fixes v q1 q2 q3 r0 r1 r2 :: int
  shows "v = r0 + 256 * q1 \<Longrightarrow> q1 = r1 + 256 * q2 \<Longrightarrow> q2 = r2 + 256 * q3
         \<Longrightarrow> r0 + 256 * r1 + 65536 * r2 + 16777216 * q3 = v"
  by simp

lemma le32_roundtrip:
  assumes "0 \<le> v" "v \<le> 4294967295"
  shows "uint (word_of_int v :: byte) + 256 * uint (word_of_int (v div 256) :: byte)
         + 65536 * uint (word_of_int (v div 65536) :: byte)
         + 16777216 * uint (word_of_int (v div 16777216) :: byte) = v"
proof -
  have "v div 16777216 < 256" using assms by simp
  then have m: "v div 16777216 mod 256 = v div 16777216" using assms by simp
  have a: "v = v mod 256 + 256 * (v div 256)" by simp
  have "v div 256 div 256 = v div 65536" "v div 65536 div 256 = v div 16777216"
    by (simp_all add: zdiv_zmult2_eq [symmetric])
  then have b: "v div 256 = v div 256 mod 256 + 256 * (v div 65536)"
    and c: "v div 65536 = v div 65536 mod 256 + 256 * (v div 16777216)"
    by (metis mod_mult_div_eq)+
  have e: "uint (word_of_int k :: byte) = k mod 256" for k
    by (simp add: uint_word_of_int)
  show ?thesis
    unfolding e m by (rule le32_sum [OF a b c])
qed

lemma le16_roundtrip:
  assumes "0 \<le> v" "v \<le> 65535"
  shows "uint (word_of_int v :: byte) + 256 * uint (word_of_int (v div 256) :: byte) = v"
proof -
  have "v div 256 < 256" using assms by simp
  then have m: "v div 256 mod 256 = v div 256" using assms by simp
  have e: "uint (word_of_int k :: byte) = k mod 256" for k
    by (simp add: uint_word_of_int)
  show ?thesis
    unfolding e m by simp
qed

section \<open>Writes that leave the rest of a buffer alone\<close>

lemma same_outside_refl: "same_outside D xs xs"
  by (simp add: same_outside_def)

lemma same_outside_trans:
  "same_outside A xs ys \<Longrightarrow> same_outside B ys zs \<Longrightarrow> same_outside (A \<union> B) xs zs"
  by (simp add: same_outside_def)

lemma same_outside_mono:
  "same_outside A xs ys \<Longrightarrow> A \<subseteq> B \<Longrightarrow> same_outside B xs ys"
  by (auto simp: same_outside_def)

lemma same_outside_length: "same_outside D xs ys \<Longrightarrow> length xs = length ys"
  by (simp add: same_outside_def)

lemma same_outside_nth:
  "same_outside D xs ys \<Longrightarrow> k < length xs \<Longrightarrow> int k \<notin> D \<Longrightarrow> xs ! k = ys ! k"
  unfolding same_outside_def by (metis nat_int of_nat_0_le_iff of_nat_less_iff)

lemma same_outside_u32:
  assumes "same_outside D xs ys" "0 \<le> k" "k + 4 \<le> int (length xs)" "{k..k + 3} \<inter> D = {}"
  shows "u32 xs k = u32 ys k"
proof -
  have "k \<in> {k..k + 3}" "k + 1 \<in> {k..k + 3}" "k + 2 \<in> {k..k + 3}" "k + 3 \<in> {k..k + 3}"
    by simp_all
  then have "k \<notin> D" "k + 1 \<notin> D" "k + 2 \<notin> D" "k + 3 \<notin> D"
    using assms(4) by blast+
  then show ?thesis
    using assms(1,2,3) by (simp add: same_outside_def u32_def)
qed

lemma same_outside_u16:
  assumes "same_outside D xs ys" "0 \<le> k" "k + 2 \<le> int (length xs)" "{k..k + 1} \<inter> D = {}"
  shows "u16 xs k = u16 ys k"
proof -
  have "k \<in> {k..k + 1}" "k + 1 \<in> {k..k + 1}"
    by simp_all
  then have "k \<notin> D" "k + 1 \<notin> D"
    using assms(4) by blast+
  then show ?thesis
    using assms(1,2,3) by (simp add: same_outside_def u16_def)
qed

lemma nth_overwrite:
  assumes "n + length bs \<le> length buf" "j < length buf"
  shows "(take n buf @ bs @ drop (n + length bs) buf) ! j
         = (if j < n then buf ! j else if j < n + length bs then bs ! (j - n) else buf ! j)"
proof -
  have "length (take n buf) = n" using assms by simp
  then show ?thesis
    using assms by (auto simp: nth_append)
qed

lemma write_at_ok:
  assumes "0 \<le> off" "off + int (length bs) \<le> int (length buf)"
  shows "\<exists>buf'. write_at buf off bs = Inr buf'
           \<and> same_outside {off..<off + int (length bs)} buf' buf
           \<and> (\<forall>i<length bs. buf' ! (nat off + i) = bs ! i)"
proof -
  let ?b = "take (nat off) buf @ bs @ drop (nat off + length bs) buf"
  have w: "write_at buf off bs = Inr ?b"
    using assms by (simp add: write_at_def)
  have r: "nat off + length bs \<le> length buf"
    using assms by linarith
  have len: "length ?b = length buf"
    using assms by simp
  have out: "?b ! nat k = buf ! nat k"
    if "0 \<le> k" "k < int (length buf)" "k \<notin> {off..<off + int (length bs)}" for k
  proof -
    have "nat k < length buf" using that by linarith
    moreover have "nat k < nat off \<or> nat off + length bs \<le> nat k"
      using that assms by (simp; linarith)
    ultimately show ?thesis
      using nth_overwrite [OF r, of "nat k"] by auto
  qed
  have inn: "?b ! (nat off + i) = bs ! i" if "i < length bs" for i
    using that nth_overwrite [OF r, of "nat off + i"] r by simp
  show ?thesis
    using w len out inn by (simp add: same_outside_def)
qed

lemma pack_into_I_ok:
  assumes "0 \<le> v" "v \<le> 4294967295" "0 \<le> off" "off + 4 \<le> int (length buf)"
  shows "\<exists>buf'. pack_into_I buf off v = Inr buf' \<and> same_outside {off..off + 3} buf' buf
           \<and> u32 buf' off = v"
proof -
  have l: "length (bytes_I v) = 4" by (simp add: bytes_I_def)
  obtain buf' where w: "write_at buf off (bytes_I v) = Inr buf'"
    and s: "same_outside {off..<off + int (length (bytes_I v))} buf' buf"
    and n: "\<forall>i<length (bytes_I v). buf' ! (nat off + i) = bytes_I v ! i"
    using write_at_ok [of off "bytes_I v" buf] assms l by auto
  have i: "buf' ! (nat off + i) = bytes_I v ! i" if "i < 4" for i
    using n l that by simp
  have "buf' ! nat off = bytes_I v ! 0" "buf' ! (nat off + 1) = bytes_I v ! 1"
       "buf' ! (nat off + 2) = bytes_I v ! 2" "buf' ! (nat off + 3) = bytes_I v ! 3"
    using i [of 0] i [of 1] i [of 2] i [of 3] by simp_all
  then have "u32 buf' off = v"
    using assms(3) le32_roundtrip [OF assms(1,2)]
    by (simp add: u32_def nat_add_distrib bytes_I_def)
  moreover have "{off..<off + int (length (bytes_I v))} = {off..off + 3}"
    using l by auto
  ultimately show ?thesis
    using w s assms by (simp add: pack_into_I_def pack_I_def)
qed

lemma pack_into_H_ok:
  assumes "0 \<le> v" "v \<le> 65535" "0 \<le> off" "off + 2 \<le> int (length buf)"
  shows "\<exists>buf'. pack_into_H buf off v = Inr buf' \<and> same_outside {off..off + 1} buf' buf
           \<and> u16 buf' off = v"
proof -
  have l: "length (bytes_H v) = 2" by (simp add: bytes_H_def)
  obtain buf' where w: "write_at buf off (bytes_H v) = Inr buf'"
    and s: "same_outside {off..<off + int (length (bytes_H v))} buf' buf"
    and n: "\<forall>i<length (bytes_H v). buf' ! (nat off + i) = bytes_H v ! i"
    using write_at_ok [of off "bytes_H v" buf] assms l by auto
  have i: "buf' ! (nat off + i) = bytes_H v ! i" if "i < 2" for i
    using n l that by simp
  have "buf' ! nat off = bytes_H v ! 0" "buf' ! (nat off + 1) = bytes_H v ! 1"
    using i [of 0] i [of 1] by simp_all
  then have "u16 buf' off = v"
    using assms(3) le16_roundtrip [OF assms(1,2)]
    by (simp add: u16_def nat_add_distrib bytes_H_def)
  moreover have "{off..<off + int (length (bytes_H v))} = {off..off + 1}"
    using l by auto
  ultimately show ?thesis
    using w s assms by (simp add: pack_into_H_def pack_H_def)
qed

lemma patch_word_ok:
  assumes "0 \<le> pos" "pos + 4 \<le> int (length buf)" "c (u32 buf pos) \<longrightarrow> d \<le> u32 buf pos"
    "0 \<le> d"
  shows "\<exists>buf'. patch_word c d pos buf = Inr buf' \<and> same_outside {pos..pos + 3} buf' buf
           \<and> u32 buf' pos = (if c (u32 buf pos) then u32 buf pos - d else u32 buf pos)"
proof (cases "c (u32 buf pos)")
  case True
  then have "0 \<le> u32 buf pos - d" "u32 buf pos - d \<le> 4294967295"
    using assms u32_bounds [of buf pos] by auto
  from pack_into_I_ok [OF this assms(1,2)] True show ?thesis
    using assms by (simp add: patch_word_def get_I_u32)
next
  case False
  then show ?thesis
    using assms by (simp add: patch_word_def get_I_u32 same_outside_refl)
qed

lemma patch_loop:
  fixes pos :: "int \<Rightarrow> int"
  assumes "distinct is"
    and "\<forall>i\<in>set is. 0 \<le> pos i \<and> pos i + 4 \<le> int (length buf)"
    and "\<forall>i\<in>set is. \<forall>j\<in>set is. i \<noteq> j \<longrightarrow> pos i + 4 \<le> pos j \<or> pos j + 4 \<le> pos i"
    and "\<forall>i\<in>set is. c (u32 buf (pos i)) \<longrightarrow> d \<le> u32 buf (pos i)"
    and "0 \<le> d"
  shows "\<exists>buf'. fold_err (\<lambda>i. patch_word c d (pos i)) is buf = Inr buf'
           \<and> same_outside (\<Union>i\<in>set is. {pos i..pos i + 3}) buf' buf
           \<and> (\<forall>i\<in>set is. u32 buf' (pos i)
                 = (if c (u32 buf (pos i)) then u32 buf (pos i) - d else u32 buf (pos i)))"
  using assms
proof (induction "is" arbitrary: buf)
  case Nil
  then show ?case by (simp add: same_outside_refl)
next
  case (Cons i "is")
  obtain buf1 where p: "patch_word c d (pos i) buf = Inr buf1"
    and s1: "same_outside {pos i..pos i + 3} buf1 buf"
    and v1: "u32 buf1 (pos i) = (if c (u32 buf (pos i)) then u32 buf (pos i) - d else u32 buf (pos i))"
    using patch_word_ok [of "pos i" buf c d] Cons.prems by auto
  have keep: "u32 buf1 (pos j) = u32 buf (pos j)" if "j \<in> set is" for j
  proof -
    have "j \<noteq> i" using that Cons.prems(1) by auto
    then have "pos i + 4 \<le> pos j \<or> pos j + 4 \<le> pos i"
      using Cons.prems(3) that by auto
    then have "{pos j..pos j + 3} \<inter> {pos i..pos i + 3} = {}" by auto
    moreover have "0 \<le> pos j" "pos j + 4 \<le> int (length buf1)"
      using Cons.prems(2) that same_outside_length [OF s1] by auto
    ultimately show ?thesis using same_outside_u32 [OF s1] by blast
  qed
  have len: "length buf1 = length buf" using s1 by (rule same_outside_length)
  obtain buf' where f: "fold_err (\<lambda>i. patch_word c d (pos i)) is buf1 = Inr buf'"
    and s2: "same_outside (\<Union>i\<in>set is. {pos i..pos i + 3}) buf' buf1"
    and v2: "\<forall>j\<in>set is. u32 buf' (pos j)
                 = (if c (u32 buf1 (pos j)) then u32 buf1 (pos j) - d else u32 buf1 (pos j))"
    using Cons.IH [of buf1] Cons.prems keep len by auto
  have a: "fold_err (\<lambda>i. patch_word c d (pos i)) (i # is) buf = Inr buf'"
    using p f by simp
  have b: "same_outside (\<Union>i\<in>set (i # is). {pos i..pos i + 3}) buf' buf"
    using same_outside_trans [OF s2 s1] by (simp add: Un_commute)
  have "{pos i..pos i + 3} \<inter> (\<Union>j\<in>set is. {pos j..pos j + 3}) = {}"
  proof -
    have "{pos i..pos i + 3} \<inter> {pos j..pos j + 3} = {}" if "j \<in> set is" for j
    proof -
      have "j \<noteq> i" using that Cons.prems(1) by auto
      then have "pos i + 4 \<le> pos j \<or> pos j + 4 \<le> pos i"
        using Cons.prems(3) that by auto
      then show ?thesis by auto
    qed
    then show ?thesis by blast
  qed
  moreover have "0 \<le> pos i" "pos i + 4 \<le> int (length buf')"
    using Cons.prems(2) len same_outside_length [OF s2] by auto
  ultimately have "u32 buf' (pos i) = u32 buf1 (pos i)"
    using same_outside_u32 [OF s2] by blast
  then have c: "\<forall>j\<in>set (i # is). u32 buf' (pos j)
                 = (if c (u32 buf (pos j)) then u32 buf (pos j) - d else u32 buf (pos j))"
    using v1 v2 keep by auto
  show ?case using a b c by blast
qed

section \<open>The buffer after the cut\<close>

lemma u32_eqI:
  assumes "0 \<le> k" "0 \<le> k'" "\<And>j. j < 4 \<Longrightarrow> xs ! (nat k + j) = ys ! (nat k' + j)"
  shows "u32 xs k = u32 ys k'"
  using assms(1,2) assms(3) [of 0] assms(3) [of 1] assms(3) [of 2] assms(3) [of 3]
  by (simp add: u32_def nat_add_distrib)

lemma u16_eqI:
  assumes "0 \<le> k" "0 \<le> k'" "\<And>j. j < 2 \<Longrightarrow> xs ! (nat k + j) = ys ! (nat k' + j)"
  shows "u16 xs k = u16 ys k'"
  using assms(1,2) assms(3) [of 0] assms(3) [of 1]
  by (simp add: u16_def nat_add_distrib)

text \<open>The buffer after the cut and the append, byte by byte.\<close>

lemma cut_nat_nth:
  assumes "p + s \<le> length data"
  shows "((take p data @ drop (p + s) data) @ T) ! j
         = (if j < p then data ! j
            else if j < length data - s then data ! (j + s)
            else T ! (j - (length data - s)))"
proof -
  have l: "length (take p data) = p" using assms by simp
  have "drop (p + s) data ! (j - p) = data ! (j + s)" if "p \<le> j" "j < length data - s"
  proof -
    have "p + s + (j - p) = j + s" using that by simp
    then show ?thesis using assms that by (simp add: nth_drop add.commute)
  qed
  moreover have "j - p - (length data - (p + s)) = j - (length data - s)"
    using assms by simp
  ultimately show ?thesis
    using assms l by (auto simp: nth_append)
qed

lemma cut_eq:
  assumes "0 \<le> P" "0 \<le> S" "P + S \<le> int (length data)"
  shows "py_slice data 0 P @ py_slice data (P + S) (int (length data))
         = take (nat P) data @ drop (nat P + nat S) data"
  using assms by (simp add: py_slice_nonneg nat_add_distrib)

lemma cut_length:
  assumes "0 \<le> P" "0 \<le> S" "P + S \<le> int (length data)"
  shows "int (length (py_slice data 0 P @ py_slice data (P + S) (int (length data))))
         = int (length data) - S"
  using assms by (simp add: py_slice_nonneg)

lemma cut_nth:
  assumes "0 \<le> P" "0 \<le> S" "P + S \<le> int (length data)"
  shows "((py_slice data 0 P @ py_slice data (P + S) (int (length data))) @ T) ! j
         = (if j < nat P then data ! j
            else if j < length data - nat S then data ! (j + nat S)
            else T ! (j - (length data - nat S)))"
proof -
  have "nat P + nat S \<le> length data" using assms by linarith
  from cut_nat_nth [OF this] show ?thesis
    unfolding cut_eq [OF assms] .
qed

lemma set_py_range: "set (py_range n) = {0..<n}"
proof (rule set_eqI)
  fix x
  show "x \<in> set (py_range n) \<longleftrightarrow> x \<in> {0..<n}"
  proof
    assume "x \<in> set (py_range n)"
    then obtain m where "m < nat n" "x = int m"
      by (auto simp: py_range_def)
    then show "x \<in> {0..<n}" by simp
  next
    assume x: "x \<in> {0..<n}"
    then have "nat x \<in> {0..<nat n}" by simp
    then have "int (nat x) \<in> int ` {0..<nat n}" by (rule imageI)
    then show "x \<in> set (py_range n)"
      using x by (simp add: py_range_def)
  qed
qed

lemma distinct_py_range: "distinct (py_range n)"
  by (simp add: py_range_def distinct_map)

lemma length_cut_buffer:
  assumes "0 \<le> P" "0 \<le> S" "P + S \<le> int (length data)"
  shows "int (length (cut_buffer data P S T)) = int (length data) - S + int (length T)"
  using cut_length [OF assms] by (simp add: cut_buffer_def)

lemma cut_buffer_nth_low:
  assumes "0 \<le> P" "0 \<le> S" "P + S \<le> int (length data)" "j < nat P"
  shows "cut_buffer data P S T ! j = data ! j"
  using cut_nth [OF assms(1-3)] assms(4) by (simp add: cut_buffer_def)

lemma cut_buffer_u32_low:
  assumes "0 \<le> P" "0 \<le> S" "P + S \<le> int (length data)" "0 \<le> k" "k + 4 \<le> P"
  shows "u32 (cut_buffer data P S T) k = u32 data k"
proof (rule u32_eqI [OF assms(4) assms(4)])
  fix j :: nat assume "j < 4"
  then have "nat k + j < nat P" using assms by linarith
  then show "cut_buffer data P S T ! (nat k + j) = data ! (nat k + j)"
    by (rule cut_buffer_nth_low [OF assms(1-3)])
qed

lemma cut_buffer_u16_low:
  assumes "0 \<le> P" "0 \<le> S" "P + S \<le> int (length data)" "0 \<le> k" "k + 2 \<le> P"
  shows "u16 (cut_buffer data P S T) k = u16 data k"
proof (rule u16_eqI [OF assms(4) assms(4)])
  fix j :: nat assume "j < 2"
  then have "nat k + j < nat P" using assms by linarith
  then show "cut_buffer data P S T ! (nat k + j) = data ! (nat k + j)"
    by (rule cut_buffer_nth_low [OF assms(1-3)])
qed

lemma cut_buffer_nth:
  assumes "0 \<le> P" "0 \<le> S" "P + S \<le> int (length data)"
  shows "cut_buffer data P S T ! j
         = (if j < nat P then data ! j
            else if j < length data - nat S then data ! (j + nat S)
            else T ! (j - (length data - nat S)))"
  unfolding cut_buffer_def by (rule cut_nth [OF assms])

lemma cut_buffer_u32_mid:
  assumes "0 \<le> P" "0 \<le> S" "P + S \<le> int (length data)" "P \<le> k"
    "k + 4 \<le> int (length data) - S"
  shows "u32 (cut_buffer data P S T) k = u32 data (k + S)"
proof -
  have a: "0 \<le> k" and b: "0 \<le> k + S" using assms by linarith+
  show ?thesis
  proof (rule u32_eqI [OF a b])
    fix j :: nat assume j: "j < 4"
    have c: "\<not> nat k + j < nat P" "nat k + j < length data - nat S"
      using assms j by linarith+
    have e: "nat k + j + nat S = nat (k + S) + j" using assms by linarith
    have "cut_buffer data P S T ! (nat k + j) = data ! (nat k + j + nat S)"
      unfolding cut_buffer_nth [OF assms(1-3)] using c by simp
    then show "cut_buffer data P S T ! (nat k + j) = data ! (nat (k + S) + j)"
      unfolding e .
  qed
qed

lemma cut_buffer_u32_high:
  assumes "0 \<le> P" "0 \<le> S" "P + S \<le> int (length data)" "0 \<le> k"
  shows "u32 (cut_buffer data P S T) (int (length data) - S + k) = u32 T k"
proof -
  have a: "0 \<le> int (length data) - S + k" using assms by linarith
  show ?thesis
  proof (rule u32_eqI [OF a assms(4)])
    fix j :: nat assume j: "j < 4"
    let ?i = "nat (int (length data) - S + k) + j"
    have c: "\<not> ?i < nat P" "\<not> ?i < length data - nat S"
      using assms j by linarith+
    have e: "?i - (length data - nat S) = nat k + j" using assms by linarith
    have "cut_buffer data P S T ! ?i = T ! (?i - (length data - nat S))"
      unfolding cut_buffer_nth [OF assms(1-3)] using c by simp
    then show "cut_buffer data P S T ! ?i = T ! (nat k + j)"
      unfolding e .
  qed
qed

lemma mult_step:
  fixes i j s :: int
  assumes "i < j" "0 \<le> s"
  shows "i * s + s \<le> j * s"
proof -
  have "(i + 1) * s \<le> j * s" using assms by (intro mult_right_mono) auto
  then show ?thesis by (simp add: algebra_simps)
qed

section \<open>The two patch loops\<close>

lemma patch_ph_entry_eq:
  "patch_ph_entry N es P S = (\<lambda>i. patch_word (\<lambda>v. P < v) S (N + i * es + 4))"
  by (intro ext) (simp add: patch_ph_entry_def patch_word_def Let_def)

lemma patch_sh_entry_eq:
  "patch_sh_entry b se P S
   = (\<lambda>i. patch_word (\<lambda>v. P < v \<and> v < 4294967295) S (b + i * se + 16))"
  by (intro ext) (simp add: patch_sh_entry_def patch_word_def Let_def)

lemma rewrite_buffer_eq:
  assumes "0 \<le> P" "0 \<le> S" "P + S \<le> int (length data)"
  shows "rewrite_buffer data P shoff es se sn S T n =
     ebind (pack_into_I (cut_buffer data P S T) 28 (int (length data) - S)) (\<lambda>buf1.
     ebind (pack_into_H buf1 44 n) (\<lambda>buf2.
     ebind (if P < shoff then pack_into_I buf2 32 (shoff - S) else Inr buf2) (\<lambda>buf3.
     ebind (fold_err (\<lambda>i. patch_word (\<lambda>v. P < v) S (int (length data) - S + i * es + 4))
              (py_range n) buf3) (\<lambda>buf4.
     if P < shoff
     then fold_err (\<lambda>i. patch_word (\<lambda>v. P < v \<and> v < 4294967295) S (shoff - S + i * se + 16))
            (py_range sn) buf4
     else Inr buf4))))"
  unfolding rewrite_buffer_def Let_def cut_length [OF assms] patch_ph_entry_eq patch_sh_entry_eq
    cut_buffer_def ..

lemma rewrite_buffer_ok:
  fixes data T :: "byte list" and P shoff se sn S n :: int
  assumes lay: "52 \<le> P" "0 \<le> S" "P + S \<le> int (length data)" "int (length data) \<le> 4294967295"
    and tab: "0 \<le> n" "n \<le> 65535" "int (length T) = 32 * n"
    and tofs: "\<forall>i\<in>set (py_range n). P < u32 T (32 * i + 4) \<longrightarrow> S \<le> u32 T (32 * i + 4)"
    and sh: "0 \<le> shoff" "shoff \<le> 4294967295" "0 \<le> se" "0 \<le> sn"
    and shl: "P < shoff \<longrightarrow> P + S \<le> shoff \<and> shoff + sn * se \<le> int (length data)
                \<and> (0 < sn \<longrightarrow> 20 \<le> se)
                \<and> (\<forall>i\<in>set (py_range sn). P < u32 data (shoff + i * se + 16)
                       \<and> u32 data (shoff + i * se + 16) < 4294967295
                       \<longrightarrow> S \<le> u32 data (shoff + i * se + 16))"
  shows "\<exists>out. rewrite_buffer data P shoff 32 se sn S T n = Inr out
     \<and> same_outside ({28..31} \<union> {44..45} \<union> (if P < shoff then {32..35} else {})
          \<union> (\<Union>i\<in>set (py_range n). {int (length data) - S + i * 32 + 4
                                        ..int (length data) - S + i * 32 + 4 + 3})
          \<union> (if P < shoff
              then \<Union>i\<in>set (py_range sn). {shoff - S + i * se + 16..shoff - S + i * se + 16 + 3}
              else {})) out (cut_buffer data P S T)
     \<and> u32 out 28 = int (length data) - S \<and> u16 out 44 = n
     \<and> (P < shoff \<longrightarrow> u32 out 32 = shoff - S)
     \<and> (\<forall>i\<in>set (py_range n). u32 out (int (length data) - S + i * 32 + 4)
            = shifted P S (u32 T (32 * i + 4)))
     \<and> (P < shoff \<longrightarrow> (\<forall>i\<in>set (py_range sn). u32 out (shoff - S + i * se + 16)
            = shifted_sh P S (u32 data (shoff + i * se + 16))))"
proof -
  define N where "N = int (length data) - S"
  define buf0 where "buf0 = cut_buffer data P S T"
  define Dph where "Dph = (\<Union>i\<in>set (py_range n). {N + i * 32 + 4..N + i * 32 + 4 + 3})"
  define Dsh where "Dsh = (if P < shoff
     then \<Union>i\<in>set (py_range sn). {shoff - S + i * se + 16..shoff - S + i * se + 16 + 3} else {})"
  have P0: "0 \<le> P" using lay by simp
  have N: "52 \<le> N" "N \<le> 4294967295" "P \<le> N" using lay by (simp_all add: N_def)
  have l0: "int (length buf0) = N + 32 * n"
    using length_cut_buffer [OF P0 lay(2,3)] tab by (simp add: buf0_def N_def)
  have ph_in: "0 \<le> i \<and> i < n" if "i \<in> set (py_range n)" for i
    using that by (simp add: set_py_range)
  have sh_in: "0 \<le> i \<and> i < sn" if "i \<in> set (py_range sn)" for i
    using that by (simp add: set_py_range)
  \<comment> \<open>the header writes\<close>
  obtain buf1 where b1: "pack_into_I buf0 28 N = Inr buf1"
    and s1: "same_outside {28..28 + 3} buf1 buf0" and v1: "u32 buf1 28 = N"
    using pack_into_I_ok [of N 28 buf0] N l0 tab by auto
  have l1: "length buf1 = length buf0" using s1 by (rule same_outside_length)
  obtain buf2 where b2: "pack_into_H buf1 44 n = Inr buf2"
    and s2: "same_outside {44..44 + 1} buf2 buf1" and v2: "u16 buf2 44 = n"
    using pack_into_H_ok [of n 44 buf1] N l0 l1 tab by auto
  have l2: "length buf2 = length buf0" using s2 l1 by (simp add: same_outside_length)
  obtain buf3 where b3: "(if P < shoff then pack_into_I buf2 32 (shoff - S) else Inr buf2) = Inr buf3"
    and s3: "same_outside (if P < shoff then {32..35} else {}) buf3 buf2"
    and v3: "P < shoff \<longrightarrow> u32 buf3 32 = shoff - S"
  proof (cases "P < shoff")
    case True
    then have "0 \<le> shoff - S" "shoff - S \<le> 4294967295" using shl sh lay by auto
    from pack_into_I_ok [OF this, of 32 buf2] True that show ?thesis
      using N l0 l2 tab by auto
  next
    case False
    then show ?thesis using that [of buf2] by (simp add: same_outside_refl)
  qed
  have l3: "length buf3 = length buf0" using s3 l2 by (simp add: same_outside_length)
  have s03: "same_outside ({28..31} \<union> {44..45} \<union> (if P < shoff then {32..35} else {})) buf3 buf0"
    using same_outside_trans [OF same_outside_trans [OF s3 s2] s1]
    by (rule same_outside_mono) auto
  \<comment> \<open>the loop over the appended entries\<close>
  have ph_val: "u32 buf3 (N + i * 32 + 4) = u32 T (32 * i + 4)" if "i \<in> set (py_range n)" for i
  proof -
    have i: "0 \<le> i" "i < n" using ph_in that by auto
    have "u32 buf3 (N + i * 32 + 4) = u32 buf0 (N + i * 32 + 4)"
      using i N l0 l3 by (intro same_outside_u32 [OF s03]) auto
    also have "\<dots> = u32 T (32 * i + 4)"
      using cut_buffer_u32_high [OF P0 lay(2,3), of "32 * i + 4" T] i
      by (simp add: buf0_def N_def algebra_simps)
    finally show ?thesis .
  qed
  obtain buf4 where b4: "fold_err (\<lambda>i. patch_word (\<lambda>v. P < v) S (N + i * 32 + 4))
                           (py_range n) buf3 = Inr buf4"
    and s4: "same_outside Dph buf4 buf3"
    and v4: "\<forall>i\<in>set (py_range n). u32 buf4 (N + i * 32 + 4)
               = (if P < u32 buf3 (N + i * 32 + 4) then u32 buf3 (N + i * 32 + 4) - S
                  else u32 buf3 (N + i * 32 + 4))"
  proof -
    have "\<forall>i\<in>set (py_range n). 0 \<le> N + i * 32 + 4 \<and> N + i * 32 + 4 + 4 \<le> int (length buf3)"
      using ph_in N l0 l3 by force
    moreover have "\<forall>i\<in>set (py_range n). \<forall>j\<in>set (py_range n). i \<noteq> j
        \<longrightarrow> N + i * 32 + 4 + 4 \<le> N + j * 32 + 4 \<or> N + j * 32 + 4 + 4 \<le> N + i * 32 + 4"
      by (intro ballI impI) linarith
    moreover have "\<forall>i\<in>set (py_range n). P < u32 buf3 (N + i * 32 + 4)
        \<longrightarrow> S \<le> u32 buf3 (N + i * 32 + 4)"
      using tofs ph_val by simp
    ultimately show ?thesis
      using patch_loop [OF distinct_py_range, of n "\<lambda>i. N + i * 32 + 4" buf3 "\<lambda>v. P < v" S]
        lay(2) that unfolding Dph_def by blast
  qed
  have l4: "length buf4 = length buf0" using s4 l3 by (simp add: same_outside_length)
  have Dph_sub: "Dph \<subseteq> {N..}"
  proof
    fix x assume "x \<in> Dph"
    then obtain i where "i \<in> set (py_range n)" "N + i * 32 + 4 \<le> x"
      by (auto simp: Dph_def)
    then show "x \<in> {N..}" using ph_in [of i] by simp
  qed
  \<comment> \<open>the loop over the section headers\<close>
  obtain out where b5: "(if P < shoff
        then fold_err (\<lambda>i. patch_word (\<lambda>v. P < v \<and> v < 4294967295) S (shoff - S + i * se + 16))
               (py_range sn) buf4
        else Inr buf4) = Inr out"
    and s5: "same_outside Dsh out buf4"
    and v5: "P < shoff \<longrightarrow> (\<forall>i\<in>set (py_range sn). u32 out (shoff - S + i * se + 16)
                 = shifted_sh P S (u32 data (shoff + i * se + 16)))"
  proof (cases "P < shoff")
    case False
    then show ?thesis using that [of buf4] by (simp add: same_outside_refl Dsh_def)
  next
    case True
    define b where "b = shoff - S"
    have b: "P \<le> b" "b + sn * se \<le> N" using True shl by (simp_all add: b_def N_def)
    have pos: "b + i * se + 16 + 4 \<le> N \<and> P \<le> b + i * se + 16" if "i \<in> set (py_range sn)" for i
    proof -
      have i: "0 \<le> i" "i < sn" using sh_in that by auto
      then have "20 \<le> se" using True shl by auto
      moreover have "i * se + se \<le> sn * se" using mult_step [OF i(2) sh(3)] .
      moreover have "0 \<le> i * se" using i sh by simp
      ultimately show ?thesis using b by linarith
    qed
    have sh_val: "u32 buf4 (b + i * se + 16) = u32 data (shoff + i * se + 16)"
      if "i \<in> set (py_range sn)" for i
    proof -
      have p: "b + i * se + 16 + 4 \<le> N" "P \<le> b + i * se + 16" using pos [OF that] by auto
      have "{b + i * se + 16..b + i * se + 16 + 3} \<inter> Dph = {}"
        using Dph_sub p by auto
      then have "u32 buf4 (b + i * se + 16) = u32 buf3 (b + i * se + 16)"
        using p lay l0 l4 tab by (intro same_outside_u32 [OF s4]) auto
      also have "\<dots> = u32 buf0 (b + i * se + 16)"
        using p lay l0 l3 tab by (intro same_outside_u32 [OF s03]) auto
      also have "\<dots> = u32 data (b + i * se + 16 + S)"
        unfolding buf0_def using p
        by (intro cut_buffer_u32_mid [OF P0 lay(2,3)]) (auto simp: N_def)
      finally show ?thesis by (simp add: b_def algebra_simps)
    qed
    have "\<forall>i\<in>set (py_range sn). 0 \<le> b + i * se + 16
            \<and> b + i * se + 16 + 4 \<le> int (length buf4)"
      using pos lay l0 l4 tab by force
    moreover have "\<forall>i\<in>set (py_range sn). \<forall>j\<in>set (py_range sn). i \<noteq> j
        \<longrightarrow> b + i * se + 16 + 4 \<le> b + j * se + 16 \<or> b + j * se + 16 + 4 \<le> b + i * se + 16"
    proof (intro ballI impI)
      fix i j assume ij: "i \<in> set (py_range sn)" "j \<in> set (py_range sn)" "i \<noteq> j"
      then have "0 < sn" using sh_in by force
      then have se: "20 \<le> se" using True shl by auto
      consider "i < j" | "j < i" using ij by linarith
      then show "b + i * se + 16 + 4 \<le> b + j * se + 16 \<or> b + j * se + 16 + 4 \<le> b + i * se + 16"
      proof cases
        case 1
        from mult_step [OF this sh(3)] se show ?thesis by linarith
      next
        case 2
        from mult_step [OF this sh(3)] se show ?thesis by linarith
      qed
    qed
    moreover have "\<forall>i\<in>set (py_range sn).
        P < u32 buf4 (b + i * se + 16) \<and> u32 buf4 (b + i * se + 16) < 4294967295
        \<longrightarrow> S \<le> u32 buf4 (b + i * se + 16)"
      using True shl sh_val by simp
    ultimately obtain out where
      f: "fold_err (\<lambda>i. patch_word (\<lambda>v. P < v \<and> v < 4294967295) S (b + i * se + 16))
            (py_range sn) buf4 = Inr out"
      and s: "same_outside (\<Union>i\<in>set (py_range sn). {b + i * se + 16..b + i * se + 16 + 3}) out buf4"
      and v: "\<forall>i\<in>set (py_range sn). u32 out (b + i * se + 16)
               = (if P < u32 buf4 (b + i * se + 16) \<and> u32 buf4 (b + i * se + 16) < 4294967295
                  then u32 buf4 (b + i * se + 16) - S else u32 buf4 (b + i * se + 16))"
      using patch_loop [OF distinct_py_range, of sn "\<lambda>i. b + i * se + 16" buf4
                          "\<lambda>v. P < v \<and> v < 4294967295" S] lay(2)
      by blast
    show ?thesis
      using that [of out] f s v True sh_val by (simp add: b_def Dsh_def shifted_sh_def)
  qed
  have run: "rewrite_buffer data P shoff 32 se sn S T n = Inr out"
    unfolding rewrite_buffer_eq [OF P0 lay(2,3)]
    using b1 b2 b3 b4 b5 by (simp add: buf0_def N_def)
  have frame: "same_outside ({28..31} \<union> {44..45} \<union> (if P < shoff then {32..35} else {})
                 \<union> Dph \<union> Dsh) out buf0"
    using same_outside_trans [OF same_outside_trans [OF s5 s4] s03]
    by (rule same_outside_mono) auto
  have l5: "length out = length buf0" using s5 l4 by (simp add: same_outside_length)
  have Dsh_sub: "Dsh \<subseteq> {52..}"
  proof (cases "P < shoff")
    case False then show ?thesis by (simp add: Dsh_def)
  next
    case True
    have ge: "52 \<le> shoff - S + i * se + 16" if "i \<in> set (py_range sn)" for i
    proof -
      have "0 \<le> i * se" using sh_in [OF that] sh by simp
      then show ?thesis using True shl lay by linarith
    qed
    have "x \<in> {52..}" if xD: "x \<in> Dsh" for x
    proof -
      obtain i where "i \<in> set (py_range sn)" "shoff - S + i * se + 16 \<le> x"
        using xD True by (auto simp: Dsh_def)
      then show ?thesis using ge [of i] by simp
    qed
    then show ?thesis by blast
  qed
  have hdr: "{28..28 + 3} \<inter> (Dph \<union> Dsh) = {}" "{44..44 + 1} \<inter> (Dph \<union> Dsh) = {}"
    "{32..32 + 3} \<inter> (Dph \<union> Dsh) = {}"
    using Dph_sub Dsh_sub N by auto
  have s45: "same_outside (Dph \<union> Dsh) out buf3"
    using same_outside_trans [OF s5 s4] by (simp add: Un_commute)
  have s25: "same_outside ({32..35} \<union> (Dph \<union> Dsh)) out buf2"
    using same_outside_trans [OF s45 s3] by (rule same_outside_mono) auto
  have s15: "same_outside ({44..45} \<union> {32..35} \<union> (Dph \<union> Dsh)) out buf1"
    using same_outside_trans [OF s25 s2] by (rule same_outside_mono) auto
  have big: "52 \<le> int (length out)" using l5 l0 N tab by simp
  have o28: "u32 out 28 = N"
  proof -
    have "u32 out 28 = u32 buf1 28"
      using hdr big by (intro same_outside_u32 [OF s15]) auto
    then show ?thesis using v1 by simp
  qed
  have o44: "u16 out 44 = n"
  proof -
    have "u16 out 44 = u16 buf2 44"
      using hdr big by (intro same_outside_u16 [OF s25]) auto
    then show ?thesis using v2 by simp
  qed
  have o32: "P < shoff \<longrightarrow> u32 out 32 = shoff - S"
  proof
    assume "P < shoff"
    have "u32 out 32 = u32 buf3 32"
      using hdr big by (intro same_outside_u32 [OF s45]) auto
    then show "u32 out 32 = shoff - S" using v3 \<open>P < shoff\<close> by simp
  qed
  have oph: "\<forall>i\<in>set (py_range n). u32 out (N + i * 32 + 4) = shifted P S (u32 T (32 * i + 4))"
  proof
    fix i assume i: "i \<in> set (py_range n)"
    have r: "0 \<le> i" "i < n" using ph_in [OF i] by auto
    have "{N + i * 32 + 4..N + i * 32 + 4 + 3} \<inter> Dsh = {}"
    proof (cases "P < shoff")
      case False then show ?thesis by (simp add: Dsh_def)
    next
      case True
      have lt: "shoff - S + j * se + 16 + 3 < N" if "j \<in> set (py_range sn)" for j
      proof -
        have j: "0 \<le> j" "j < sn" using sh_in [OF that] by auto
        then have "20 \<le> se" using True shl by auto
        moreover have "j * se + se \<le> sn * se" using mult_step [OF j(2) sh(3)] .
        ultimately show ?thesis using True shl by (simp add: N_def)
      qed
      have "x \<notin> Dsh" if xN: "N + i * 32 + 4 \<le> x" for x
      proof
        assume "x \<in> Dsh"
        then obtain j where "j \<in> set (py_range sn)" "x \<le> shoff - S + j * se + 16 + 3"
          using True by (auto simp: Dsh_def)
        then show False
          using lt [of j] xN r by linarith
      qed
      then show ?thesis by auto
    qed
    then have "u32 out (N + i * 32 + 4) = u32 buf4 (N + i * 32 + 4)"
      using r N l0 l5 by (intro same_outside_u32 [OF s5]) auto
    then show "u32 out (N + i * 32 + 4) = shifted P S (u32 T (32 * i + 4))"
      using v4 ph_val i by (simp add: shifted_def)
  qed
  show ?thesis
    using run frame o28 o44 o32 oph v5
    unfolding N_def buf0_def Dph_def Dsh_def by blast
qed

section \<open>Parsing the table\<close>

lemma map_err_Inr:
  "(\<And>x. x \<in> set xs \<Longrightarrow> f x = Inr (g x)) \<Longrightarrow> map_err f xs = Inr (map g xs)"
  by (induction xs) simp_all

lemma get_I_py_slice:
  assumes "0 \<le> a" "0 \<le> k" "a + k + 4 \<le> b" "b \<le> int (length xs)"
  shows "get_I (py_slice xs a b) k = Inr (u32 xs (a + k))"
proof -
  have l: "int (length (py_slice xs a b)) = b - a"
    using assms by (simp add: py_slice_nonneg)
  have "get_I (py_slice xs a b) k = Inr (u32 (py_slice xs a b) k)"
    using assms l by (intro get_I_u32) auto
  moreover have "u32 (py_slice xs a b) k = u32 xs (a + k)"
  proof (rule u32_eqI)
    fix j :: nat assume j: "j < 4"
    have "nat k + j < nat (b - a)" using assms j by linarith
    then have "py_slice xs a b ! (nat k + j) = xs ! (nat a + (nat k + j))"
      using assms by (intro nth_py_slice) auto
    moreover have "nat a + (nat k + j) = nat (a + k) + j" using assms by linarith
    ultimately show "py_slice xs a b ! (nat k + j) = xs ! (nat (a + k) + j)" by simp
  qed (use assms in auto)
  ultimately show ?thesis by simp
qed

lemma parse_ph_py_slice:
  assumes "0 \<le> a" "a + 32 \<le> b" "b \<le> int (length xs)"
  shows "parse_ph (py_slice xs a b) = Inr (phdr xs a)"
  using assms by (simp add: parse_ph_def phdr_def get_I_py_slice)

lemma py_slice_py_slice:
  assumes "0 \<le> a" "a \<le> b" "b \<le> int (length xs)" "0 \<le> c" "c \<le> d" "a + d \<le> b"
  shows "py_slice (py_slice xs a b) c d = py_slice xs (a + c) (a + d)"
proof (rule nth_equalityI)
  have li: "int (length (py_slice xs a b)) = b - a"
    using assms by (simp add: length_py_slice)
  have l1: "length (py_slice (py_slice xs a b) c d) = nat (d - c)"
    using assms li by (intro length_py_slice) auto
  have l2: "length (py_slice xs (a + c) (a + d)) = nat (d - c)"
    using length_py_slice [of "a + c" "a + d" xs] assms by simp
  show "length (py_slice (py_slice xs a b) c d) = length (py_slice xs (a + c) (a + d))"
    using l1 l2 by simp
  fix i assume "i < length (py_slice (py_slice xs a b) c d)"
  then have i: "i < nat (d - c)" using l1 by simp
  have "py_slice (py_slice xs a b) c d ! i = py_slice xs a b ! (nat c + i)"
    using assms li i by (intro nth_py_slice) auto
  also have "\<dots> = xs ! (nat a + (nat c + i))"
    using assms i by (intro nth_py_slice) auto
  also have "nat a + (nat c + i) = nat (a + c) + i"
    using assms by linarith
  also have "xs ! (nat (a + c) + i) = py_slice xs (a + c) (a + d) ! i"
    using nth_py_slice [of "a + c" "a + d" xs i] assms i by simp
  finally show "py_slice (py_slice xs a b) c d ! i = py_slice xs (a + c) (a + d) ! i" .
qed

lemma parse_segments_ok:
  assumes "0 \<le> P" "0 \<le> n" "P + 32 * n \<le> int (length data)"
  shows "parse_segments (py_slice data P (P + 32 * n)) 32 n
         = Inr (map (\<lambda>i. phdr data (P + i * 32)) (py_range n))"
  unfolding parse_segments_def Let_def
proof (rule map_err_Inr)
  fix i assume "i \<in> set (py_range n)"
  then have i: "0 \<le> i" "i < n" by (simp_all add: set_py_range)
  have "py_slice (py_slice data P (P + 32 * n)) (i * 32) (i * 32 + 32)
        = py_slice data (P + i * 32) (P + (i * 32 + 32))"
    using assms i by (intro py_slice_py_slice) auto
  then show "parse_ph (py_slice (py_slice data P (P + 32 * n)) (i * 32) (i * 32 + 32))
             = Inr (phdr data (P + i * 32))"
    using assms i by (simp add: parse_ph_py_slice)
qed

lemma classify_eq:
  "classify segs st cs =
     (case filter (\<lambda>s. p_type s = PT_LOAD \<and> p_vaddr s = 0) segs of
        [] \<Rightarrow> st | xs \<Rightarrow> Some (last xs),
      cs @ filter (\<lambda>s. p_type s = PT_LOAD \<and> p_vaddr s \<noteq> 0) segs)"
  by (induction segs arbitrary: st cs) (auto split: list.splits)

section \<open>Packing an entry\<close>

lemma py_range_2: "py_range 2 = [0, 1]"
  by (simp add: py_range_def numeral_2_eq_2)

lemma seg_in_range_phdr: "seg_in_range (phdr xs k)"
  by (simp add: seg_in_range_def phdr_def u32_bounds)

lemma pack_segment_ok: "seg_in_range seg \<Longrightarrow> pack_segment seg = Inr (seg_bytes seg)"
  by (simp add: seg_in_range_def pack_segment_def seg_bytes_def pack_I_def)

lemma length_seg_bytes: "length (seg_bytes seg) = 32"
  by (simp add: seg_bytes_def bytes_I_def)

lemma u32_bytes_I_append:
  assumes "0 \<le> v" "v \<le> 4294967295"
  shows "u32 (xs @ bytes_I v @ ys) (int (length xs)) = v"
  using le32_roundtrip [OF assms]
  by (simp add: u32_def bytes_I_def nth_append nat_add_distrib)

lemma phdr_seg_bytes:
  assumes "seg_in_range seg"
  shows "phdr (xs @ seg_bytes seg @ ys) (int (length xs)) = seg"
proof -
  let ?b = "xs @ seg_bytes seg @ ys"
  have f: "u32 ?b (int (length xs) + int (length pre)) = v"
    if "seg_bytes seg = pre @ bytes_I v @ post" "0 \<le> v" "v \<le> 4294967295" for pre post v
  proof -
    have "?b = (xs @ pre) @ bytes_I v @ (post @ ys)" using that by simp
    then show ?thesis
      using u32_bytes_I_append [OF that(2,3), of "xs @ pre" "post @ ys"] by simp
  qed
  have r: "0 \<le> p_type seg" "p_type seg \<le> 4294967295" "0 \<le> p_offset seg" "p_offset seg \<le> 4294967295"
    "0 \<le> p_vaddr seg" "p_vaddr seg \<le> 4294967295" "0 \<le> p_paddr seg" "p_paddr seg \<le> 4294967295"
    "0 \<le> p_filesz seg" "p_filesz seg \<le> 4294967295" "0 \<le> p_memsz seg" "p_memsz seg \<le> 4294967295"
    "0 \<le> p_flags seg" "p_flags seg \<le> 4294967295" "0 \<le> p_align seg" "p_align seg \<le> 4294967295"
    using assms by (simp_all add: seg_in_range_def)
  have l: "length (bytes_I v) = 4" for v by (simp add: bytes_I_def)
  have "u32 ?b (int (length xs)) = p_type seg"
    using f [of "[]" "p_type seg"] r by (simp add: seg_bytes_def)
  moreover have "u32 ?b (int (length xs) + 4) = p_offset seg"
    using f [of "bytes_I (p_type seg)" "p_offset seg"] r l by (simp add: seg_bytes_def)
  moreover have "u32 ?b (int (length xs) + 8) = p_vaddr seg"
    using f [of "bytes_I (p_type seg) @ bytes_I (p_offset seg)" "p_vaddr seg"] r l
    by (simp add: seg_bytes_def)
  moreover have "u32 ?b (int (length xs) + 12) = p_paddr seg"
    using f [of "bytes_I (p_type seg) @ bytes_I (p_offset seg) @ bytes_I (p_vaddr seg)"
               "p_paddr seg"] r l
    by (simp add: seg_bytes_def)
  moreover have "u32 ?b (int (length xs) + 16) = p_filesz seg"
    using f [of "bytes_I (p_type seg) @ bytes_I (p_offset seg) @ bytes_I (p_vaddr seg)
                 @ bytes_I (p_paddr seg)" "p_filesz seg"] r l
    by (simp add: seg_bytes_def)
  moreover have "u32 ?b (int (length xs) + 20) = p_memsz seg"
    using f [of "bytes_I (p_type seg) @ bytes_I (p_offset seg) @ bytes_I (p_vaddr seg)
                 @ bytes_I (p_paddr seg) @ bytes_I (p_filesz seg)" "p_memsz seg"] r l
    by (simp add: seg_bytes_def)
  moreover have "u32 ?b (int (length xs) + 24) = p_flags seg"
    using f [of "bytes_I (p_type seg) @ bytes_I (p_offset seg) @ bytes_I (p_vaddr seg)
                 @ bytes_I (p_paddr seg) @ bytes_I (p_filesz seg) @ bytes_I (p_memsz seg)"
               "p_flags seg"] r l
    by (simp add: seg_bytes_def)
  moreover have "u32 ?b (int (length xs) + 28) = p_align seg"
    using f [of "bytes_I (p_type seg) @ bytes_I (p_offset seg) @ bytes_I (p_vaddr seg)
                 @ bytes_I (p_paddr seg) @ bytes_I (p_filesz seg) @ bytes_I (p_memsz seg)
                 @ bytes_I (p_flags seg)" "p_align seg" "[]"] r l
    by (simp add: seg_bytes_def)
  ultimately show ?thesis
    by (simp add: phdr_def)
qed

lemma parse_two_entries:
  assumes "seg_in_range s" "seg_in_range m"
  shows "parse_segments (seg_bytes s @ seg_bytes m) 32 2 = Inr [s, m]"
proof -
  let ?T = "seg_bytes s @ seg_bytes m"
  have l: "int (length ?T) = 64" by (simp add: length_seg_bytes)
  have "py_slice ?T 0 (0 + 32 * 2) = ?T"
    using l by (simp add: py_slice_nonneg)
  then have "parse_segments ?T 32 2 = Inr (map (\<lambda>i. phdr ?T (0 + i * 32)) (py_range 2))"
    using parse_segments_ok [of 0 2 ?T] l by simp
  moreover have "phdr ?T 0 = s"
    using phdr_seg_bytes [OF assms(1), of "[]" "seg_bytes m"] by simp
  moreover have "phdr ?T 32 = m"
    using phdr_seg_bytes [OF assms(2), of "seg_bytes s" "[]"] by (simp add: length_seg_bytes)
  ultimately show ?thesis
    by (simp add: py_range_2)
qed

section \<open>The merge\<close>

lemma py_min_eq: "xs \<noteq> [] \<Longrightarrow> py_min xs = Inr (Min (set xs))"
proof (cases xs)
  case (Cons a list)
  show ?thesis unfolding Cons Min.set_eq_fold by simp
qed simp

lemma py_max_eq: "xs \<noteq> [] \<Longrightarrow> py_max xs = Inr (Max (set xs))"
proof (cases xs)
  case (Cons a list)
  show ?thesis unfolding Cons Max.set_eq_fold by simp
qed simp

lemma merge_code_eq: "cs \<noteq> [] \<Longrightarrow> merge_code cs = Inr (merged_segment cs)"
  by (simp add: merge_code_def py_min_eq py_max_eq merged_segment_def Let_def)

lemma bit_fold_or:
  "bit (fold (\<lambda>c a. a OR p_flags c) cs (a :: int)) k
   \<longleftrightarrow> bit a k \<or> (\<exists>c\<in>set cs. bit (p_flags c) k)"
  by (induction cs arbitrary: a) (auto simp: bit_or_iff)

lemma fold_or_range:
  "0 \<le> (a :: int) \<Longrightarrow> a < 2 ^ 32 \<Longrightarrow> \<forall>c\<in>set cs. 0 \<le> p_flags c \<and> p_flags c < 2 ^ 32
   \<Longrightarrow> 0 \<le> fold (\<lambda>c a. a OR p_flags c) cs a \<and> fold (\<lambda>c a. a OR p_flags c) cs a < 2 ^ 32"
proof (induction cs arbitrary: a)
  case Nil
  then show ?case by simp
next
  case (Cons c cs)
  have "0 \<le> a OR p_flags c" using Cons.prems by simp
  moreover have "a OR p_flags c < 2 ^ 32"
    using Cons.prems by (intro OR_upper) auto
  ultimately show ?case using Cons.IH [of "a OR p_flags c"] Cons.prems by simp
qed

lemma merged_segment_in_range:
  assumes ne: "cs \<noteq> []"
    and r: "\<forall>c\<in>set cs. seg_in_range c \<and> p_vaddr c \<noteq> 0
              \<and> p_offset c + p_filesz c \<le> 4294967295 \<and> p_vaddr c + p_memsz c \<le> 4294967296"
  shows "seg_in_range (merged_segment cs)"
proof -
  have fin: "finite (set cs)" "set cs \<noteq> {}" using ne by auto
  have rc: "0 \<le> p_offset c \<and> p_offset c \<le> 4294967295 \<and> 1 \<le> p_vaddr c \<and> p_vaddr c \<le> 4294967295
           \<and> 0 \<le> p_filesz c \<and> 0 \<le> p_memsz c \<and> 0 \<le> p_flags c \<and> p_flags c < 2 ^ 32
           \<and> p_offset c + p_filesz c \<le> 4294967295 \<and> p_vaddr c + p_memsz c \<le> 4294967296"
    if "c \<in> set cs" for c
    using r that by (auto simp: seg_in_range_def)
  obtain c0 where c0: "c0 \<in> set cs" using ne by (cases cs) auto
  let ?mo = "Min (p_offset ` set cs)" and ?mv = "Min (p_vaddr ` set cs)"
  let ?ef = "Max ((\<lambda>c. p_offset c + p_filesz c) ` set cs)"
  let ?em = "Max ((\<lambda>c. p_vaddr c + p_memsz c) ` set cs)"
  have mo: "0 \<le> ?mo" "?mo \<le> p_offset c0"
    using fin rc c0 by (auto simp: Min_ge_iff)
  have mv: "1 \<le> ?mv" "?mv \<le> p_vaddr c0"
    using fin rc c0 by (auto simp: Min_ge_iff)
  have ef: "p_offset c0 + p_filesz c0 \<le> ?ef" "?ef \<le> 4294967295"
    using fin rc c0 by (auto simp: Max_le_iff)
  have em: "p_vaddr c0 + p_memsz c0 \<le> ?em" "?em \<le> 4294967296"
    using fin rc c0 by (auto simp: Max_le_iff)
  have fl: "0 \<le> fold (\<lambda>c a. a OR p_flags c) cs 0 \<and> fold (\<lambda>c a. a OR p_flags c) cs 0 < 2 ^ 32"
    using rc by (intro fold_or_range) auto
  show ?thesis
    using mo mv ef em fl rc [OF c0]
    by (simp add: seg_in_range_def merged_segment_def PT_LOAD_def)
qed

lemma unpack_I_range: "unpack_I bs = Inr v \<Longrightarrow> 0 \<le> v \<and> v \<le> 4294967295"
proof (induction bs rule: unpack_I.induct)
  case (1 b0 b1 b2 b3)
  then show ?case
    using uint_byte [of b0] uint_byte [of b1] uint_byte [of b2] uint_byte [of b3] by auto
qed simp_all

lemma parse_ph_in_range: "parse_ph ph = Inr seg \<Longrightarrow> seg_in_range seg"
  unfolding parse_ph_def ebind_eq_Inr get_I_def
  by (auto simp: seg_in_range_def dest!: unpack_I_range)

lemma map_err_set:
  "map_err f xs = Inr ys \<Longrightarrow> y \<in> set ys \<Longrightarrow> \<exists>x\<in>set xs. f x = Inr y"
  by (induction xs arbitrary: ys) (auto simp: ebind_eq_Inr)

lemma parse_segments_in_range:
  "parse_segments ph_data es n = Inr segs \<Longrightarrow> seg \<in> set segs \<Longrightarrow> seg_in_range seg"
  unfolding parse_segments_def Let_def
  by (drule (1) map_err_set) (auto dest: parse_ph_in_range)

lemma classify_None:
  "classify segs None [] = (None, cs)
   \<longleftrightarrow> (\<forall>s\<in>set segs. \<not> (p_type s = PT_LOAD \<and> p_vaddr s = 0))
       \<and> cs = filter (\<lambda>s. p_type s = PT_LOAD \<and> p_vaddr s \<noteq> 0) segs"
  by (auto simp: classify_eq filter_empty_conv split: list.splits)

lemma classify_Some:
  assumes "classify segs None [] = (Some s, cs)"
  shows "s \<in> set segs" "p_type s = PT_LOAD" "p_vaddr s = 0"
    "cs = filter (\<lambda>s. p_type s = PT_LOAD \<and> p_vaddr s \<noteq> 0) segs"
proof -
  let ?f = "filter (\<lambda>s. p_type s = PT_LOAD \<and> p_vaddr s = 0) segs"
  have ne: "?f \<noteq> []" and s: "s = last ?f"
    and cs: "cs = filter (\<lambda>s. p_type s = PT_LOAD \<and> p_vaddr s \<noteq> 0) segs"
    using assms by (auto simp: classify_eq split: list.splits)
  then have "s \<in> set ?f" using last_in_set by blast
  then show "s \<in> set segs" "p_type s = PT_LOAD" "p_vaddr s = 0" by auto
  show "cs = filter (\<lambda>s. p_type s = PT_LOAD \<and> p_vaddr s \<noteq> 0) segs" by (rule cs)
qed

lemma merge_returns_input:
  assumes "parse_segments ph_data es n = Inr segs"
    and "classify segs None [] = (st, cs)" "st = None \<or> cs = []"
  shows "merge_load_segments ph_data es n = Inr (ph_data, n)"
  using assms by (cases st) (auto simp: merge_load_segments_def merged_code_seg_def)

lemma merge_single:
  assumes "parse_segments ph_data es n = Inr segs"
    and "classify segs None [] = (Some s, [c])"
  shows "merge_load_segments ph_data es n = Inr (seg_bytes s @ seg_bytes c, 2)"
proof -
  have "s \<in> set segs" using classify_Some(1) [OF assms(2)] .
  moreover have "c \<in> set (filter (\<lambda>s. p_type s = PT_LOAD \<and> p_vaddr s \<noteq> 0) segs)"
    using classify_Some(4) [OF assms(2)] by (metis list.set_intros(1))
  then have "c \<in> set segs" by simp
  ultimately have "seg_in_range s" "seg_in_range c"
    using parse_segments_in_range [OF assms(1)] by auto
  then show ?thesis
    using assms by (simp add: merge_load_segments_def merged_code_seg_def pack_segment_ok Let_def)
qed

lemma merge_many:
  assumes "parse_segments ph_data es n = Inr segs"
    and "classify segs None [] = (Some s, cs)" "1 < length cs"
    and "\<forall>c\<in>set cs. p_offset c + p_filesz c \<le> 4294967295 \<and> p_vaddr c + p_memsz c \<le> 4294967296"
  shows "merge_load_segments ph_data es n = Inr (seg_bytes s @ seg_bytes (merged_segment cs), 2)"
    and "seg_in_range s" and "seg_in_range (merged_segment cs)"
proof -
  have ne: "cs \<noteq> []" using assms(3) by auto
  have "s \<in> set segs" using classify_Some(1) [OF assms(2)] .
  then show s: "seg_in_range s"
    using parse_segments_in_range [OF assms(1)] by auto
  have "c \<in> set segs \<and> p_vaddr c \<noteq> 0" if "c \<in> set cs" for c
    using classify_Some(4) [OF assms(2)] that by auto
  then have "\<forall>c\<in>set cs. seg_in_range c \<and> p_vaddr c \<noteq> 0
              \<and> p_offset c + p_filesz c \<le> 4294967295 \<and> p_vaddr c + p_memsz c \<le> 4294967296"
    using parse_segments_in_range [OF assms(1)] assms(4) by auto
  from merged_segment_in_range [OF ne this]
  show m: "seg_in_range (merged_segment cs)" .
  show "merge_load_segments ph_data es n = Inr (seg_bytes s @ seg_bytes (merged_segment cs), 2)"
    using assms(1-3) ne s m
    by (simp add: merge_load_segments_def merged_code_seg_def pack_segment_ok merge_code_eq Let_def)
qed

section \<open>The rewritten buffer\<close>

lemma ph_windows_sub:
  "(\<Union>i\<in>set (py_range n). {N + i * 32 + 4..N + i * 32 + 4 + 3}) \<subseteq> {N..}"
proof
  fix x assume "x \<in> (\<Union>i\<in>set (py_range n). {N + i * 32 + 4..N + i * 32 + 4 + 3})"
  then obtain i where "i \<in> set (py_range n)" "N + i * 32 + 4 \<le> x" by auto
  then show "x \<in> {N..}" by (simp add: set_py_range)
qed

lemma sh_windows_sub:
  assumes "0 \<le> se" "0 < sn \<longrightarrow> 20 \<le> se" "b + sn * se \<le> N"
  shows "(\<Union>i\<in>set (py_range sn). {b + i * se + 16..b + i * se + 16 + 3}) \<subseteq> {b + 16..<N}"
proof
  fix x assume "x \<in> (\<Union>i\<in>set (py_range sn). {b + i * se + 16..b + i * se + 16 + 3})"
  then obtain i where i: "i \<in> set (py_range sn)" "b + i * se + 16 \<le> x" "x \<le> b + i * se + 16 + 3"
    by auto
  then have r: "0 \<le> i" "i < sn" by (simp_all add: set_py_range)
  then have a: "20 \<le> se" using assms(2) by linarith
  have c: "i * se + se \<le> sn * se" using mult_step [OF r(2) assms(1)] .
  have d: "0 \<le> i * se" using r(1) assms(1) by (rule mult_nonneg_nonneg)
  have "b + 16 \<le> x" using i(2) d by linarith
  moreover have "x < N" using i(3) a c assms(3) by linarith
  ultimately show "x \<in> {b + 16..<N}" by simp
qed

lemma ph_field_disjoint:
  fixes N i j :: int
  assumes "j = 0 \<or> 8 \<le> j \<and> j \<le> 28"
  shows "{N + i * 32 + j..N + i * 32 + j + 3} \<inter> (\<Union>i'\<in>A. {N + i' * 32 + 4..N + i' * 32 + 4 + 3}) = {}"
proof -
  have False if "N + i * 32 + j \<le> x" "x \<le> N + i * 32 + j + 3"
    "N + i' * 32 + 4 \<le> x" "x \<le> N + i' * 32 + 4 + 3" for x i'
  proof -
    consider "i < i'" | "i = i'" | "i' < i" by linarith
    then show False
    proof cases
      case 1 then show False using that assms by linarith
    next
      case 2 then show False using that assms by linarith
    next
      case 3 then show False using that assms by linarith
    qed
  qed
  then show ?thesis by auto
qed

lemma rewrite_buffer_rewritten:
  fixes data T :: "byte list" and P shoff se sn S n :: int
  assumes lay: "52 \<le> P" "0 \<le> S" "P + S \<le> int (length data)" "int (length data) \<le> 4294967295"
    and tab: "0 \<le> n" "n \<le> 65535" "int (length T) = 32 * n"
    and tofs: "\<forall>i\<in>set (py_range n). P < u32 T (32 * i + 4) \<longrightarrow> S \<le> u32 T (32 * i + 4)"
    and sh: "0 \<le> shoff" "shoff \<le> 4294967295" "0 \<le> se" "0 \<le> sn"
    and shl: "P < shoff \<longrightarrow> P + S \<le> shoff \<and> shoff + sn * se \<le> int (length data)
                \<and> (0 < sn \<longrightarrow> 20 \<le> se)
                \<and> (\<forall>i\<in>set (py_range sn). P < u32 data (shoff + i * se + 16)
                       \<and> u32 data (shoff + i * se + 16) < 4294967295
                       \<longrightarrow> S \<le> u32 data (shoff + i * se + 16))"
  shows "\<exists>out. rewrite_buffer data P shoff 32 se sn S T n = Inr out
           \<and> rewritten data P shoff se sn S T n out"
proof -
  define N where "N = int (length data) - S"
  define buf0 where "buf0 = cut_buffer data P S T"
  define Dph where "Dph = (\<Union>i\<in>set (py_range n). {N + i * 32 + 4..N + i * 32 + 4 + 3})"
  define Dsh where "Dsh = (if P < shoff
     then \<Union>i\<in>set (py_range sn). {shoff - S + i * se + 16..shoff - S + i * se + 16 + 3} else {})"
  define D where "D = {28..31} \<union> {44..45} \<union> (if P < shoff then {32..35} else {}) \<union> Dph \<union> Dsh"
  obtain out where run: "rewrite_buffer data P shoff 32 se sn S T n = Inr out"
    and frame: "same_outside D out buf0"
    and o28: "u32 out 28 = N" and o44: "u16 out 44 = n"
    and o32: "P < shoff \<longrightarrow> u32 out 32 = shoff - S"
    and oph: "\<forall>i\<in>set (py_range n). u32 out (N + i * 32 + 4) = shifted P S (u32 T (32 * i + 4))"
    and osh: "P < shoff \<longrightarrow> (\<forall>i\<in>set (py_range sn). u32 out (shoff - S + i * se + 16)
                = shifted_sh P S (u32 data (shoff + i * se + 16)))"
    using rewrite_buffer_ok [OF lay tab tofs sh shl]
    unfolding N_def buf0_def Dph_def Dsh_def D_def by blast
  have P0: "0 \<le> P" using lay by simp
  have N: "52 \<le> N" "P \<le> N" using lay by (simp_all add: N_def)
  have l0: "int (length buf0) = N + 32 * n"
    using length_cut_buffer [OF P0 lay(2,3)] tab by (simp add: buf0_def N_def)
  have len: "int (length out) = N + 32 * n"
    using same_outside_length [OF frame] l0 by simp
  have Dph_sub: "Dph \<subseteq> {N..}" unfolding Dph_def by (rule ph_windows_sub)
  have Dsh_sub: "Dsh \<subseteq> {P + 16..<N}"
  proof (cases "P < shoff")
    case False then show ?thesis by (simp add: Dsh_def)
  next
    case True
    then have "Dsh \<subseteq> {shoff - S + 16..<N}"
      unfolding Dsh_def using sh_windows_sub [of se sn "shoff - S" N] sh shl
      by (simp add: N_def)
    moreover have "P \<le> shoff - S" using True shl by linarith
    ultimately show ?thesis by force
  qed
  have lowD: "k \<notin> D" if "0 \<le> k" "k < 52" "k \<notin> {28..35} \<union> {44..45}" for k
    using that Dph_sub Dsh_sub N lay unfolding D_def by (auto split: if_splits)
  have low_nth: "out ! k = data ! k" if "k < 52" "int k \<notin> {28..35} \<union> {44..45}" for k
  proof -
    have "int k \<notin> D" using lowD [of "int k"] that by simp
    moreover have "k < length out" using that len N tab by linarith
    ultimately have "out ! k = buf0 ! k" using same_outside_nth [OF frame] by blast
    also have "\<dots> = data ! k"
      unfolding buf0_def using that lay by (intro cut_buffer_nth_low [OF P0 lay(2,3)]) linarith
    finally show ?thesis .
  qed
  have low16: "u16 out k = u16 data k" if k: "36 \<le> k \<and> k + 2 \<le> 44 \<or> 46 \<le> k \<and> k + 2 \<le> 52" for k
  proof -
    have k0: "0 \<le> k" using k by linarith
    show ?thesis
    proof (rule u16_eqI [OF k0 k0])
      fix j :: nat assume j: "j < 2"
      have "nat k + j < 52" using k j by linarith
      moreover have "int (nat k + j) \<notin> {28..35} \<union> {44..45}"
        using k j by (simp; linarith)
      ultimately show "out ! (nat k + j) = data ! (nat k + j)"
        by (rule low_nth)
    qed
  qed
  have a1: "\<forall>k<28. out ! k = data ! k"
    using low_nth by auto
  have a2: "u16 out 42 = u16 data 42" "u16 out 46 = u16 data 46" "u16 out 48 = u16 data 48"
    by (rule low16; simp)+
  have a3: "u32 out 32 = (if P < shoff then shoff - S else u32 data 32)"
  proof (cases "P < shoff")
    case True then show ?thesis using o32 by simp
  next
    case False
    have "{32..32 + 3} \<inter> D = {}"
      using False Dph_sub Dsh_sub N lay unfolding D_def by auto
    then have "u32 out 32 = u32 buf0 32"
      using len N tab by (intro same_outside_u32 [OF frame]) auto
    also have "\<dots> = u32 data 32"
      unfolding buf0_def using lay by (intro cut_buffer_u32_low [OF P0 lay(2,3)]) auto
    finally show ?thesis using False by simp
  qed
  have field: "u32 out (N + i * 32 + j) = u32 T (i * 32 + j)"
    if "i \<in> set (py_range n)" "j = 0 \<or> 8 \<le> j \<and> j \<le> 28" for i j
  proof -
    have i: "0 \<le> i" "i < n" using that(1) by (simp_all add: set_py_range)
    have "{N + i * 32 + j..N + i * 32 + j + 3} \<inter> Dph = {}"
      unfolding Dph_def using that(2) by (rule ph_field_disjoint)
    moreover have "{N + i * 32 + j..N + i * 32 + j + 3} \<inter> (D - Dph) = {}"
      using Dsh_sub N i that(2) unfolding D_def by (auto split: if_splits)
    ultimately have "{N + i * 32 + j..N + i * 32 + j + 3} \<inter> D = {}" by blast
    then have "u32 out (N + i * 32 + j) = u32 buf0 (N + i * 32 + j)"
      using len N i that(2) by (intro same_outside_u32 [OF frame]) auto
    also have "\<dots> = u32 T (i * 32 + j)"
    proof -
      have e: "N + i * 32 + j = int (length data) - S + (i * 32 + j)"
        by (simp add: N_def)
      have "0 \<le> i * 32 + j" using i that(2) by linarith
      then show ?thesis
        unfolding e buf0_def by (rule cut_buffer_u32_high [OF P0 lay(2,3)])
    qed
    finally show ?thesis .
  qed
  have a4: "\<forall>i\<in>set (py_range n). phdr out (N + i * 32)
            = (phdr T (i * 32))\<lparr>p_offset := shifted P S (p_offset (phdr T (i * 32)))\<rparr>"
  proof
    fix i assume i: "i \<in> set (py_range n)"
    have "u32 out (N + i * 32 + 4) = shifted P S (u32 T (i * 32 + 4))"
      using oph i by (simp add: mult.commute)
    then show "phdr out (N + i * 32)
            = (phdr T (i * 32))\<lparr>p_offset := shifted P S (p_offset (phdr T (i * 32)))\<rparr>"
      using field [OF i, of 0] field [OF i, of 8] field [OF i, of 12] field [OF i, of 16]
        field [OF i, of 20] field [OF i, of 24] field [OF i, of 28]
      by (simp add: phdr_def)
  qed
  show ?thesis
    using run len a1 a2 a3 a4 o28 o44 osh
    unfolding rewritten_def N_def by blast
qed

section \<open>Well-formed input\<close>

lemma valid_elfD:
  assumes "valid_elf data"
  shows "52 \<le> int (length data)" "int (length data) \<le> 4294967295"
    "take 4 data = [0x7f, 0x45, 0x4c, 0x46]" "data ! 4 = 1" "data ! 5 = 1"
    "u16 data 42 = 32" "52 \<le> u32 data 28"
    "u32 data 28 + 32 * u16 data 44 \<le> int (length data)"
  using assms unfolding valid_elf_def Let_def by simp_all

lemma valid_elf_segD:
  assumes "valid_elf data" "seg \<in> set (program_headers data)"
  shows "p_offset seg \<le> int (length data)"
    "p_offset seg \<le> u32 data 28 \<or> u32 data 28 + 32 * u16 data 44 \<le> p_offset seg"
    "p_offset seg + p_filesz seg \<le> 4294967295" "p_vaddr seg + p_memsz seg \<le> 4294967296"
  using assms unfolding valid_elf_def Let_def list_all_iff by blast+

lemma valid_elf_shD:
  assumes "valid_elf data" "u32 data 28 < u32 data 32"
  shows "u32 data 28 + 32 * u16 data 44 \<le> u32 data 32"
    "u32 data 32 + u16 data 48 * u16 data 46 \<le> int (length data)"
    "u16 data 48 = 0 \<or> 20 \<le> u16 data 46"
    "\<forall>v\<in>set (sh_offsets data). v \<le> u32 data 28 \<or> u32 data 28 + 32 * u16 data 44 \<le> v"
  using assms unfolding valid_elf_def Let_def list_all_iff by auto

lemma program_headers_eq:
  "u16 data 42 = 32 \<Longrightarrow>
   program_headers data = map (\<lambda>i. phdr data (u32 data 28 + i * 32)) (py_range (u16 data 44))"
  by (simp add: program_headers_def)

lemma parse_valid:
  assumes "valid_elf data"
  shows "parse_segments (py_slice data (u32 data 28) (u32 data 28 + 32 * u16 data 44))
           32 (u16 data 44) = Inr (program_headers data)"
  using parse_segments_ok [of "u32 data 28" "u16 data 44" data] valid_elfD [OF assms]
    u16_bounds [of data 44]
  by (simp add: program_headers_eq)

lemma header_reads:
  assumes "52 \<le> int (length data)"
  shows "get_I data 28 = Inr (u32 data 28)" "get_I data 32 = Inr (u32 data 32)"
    "get_H data 42 = Inr (u16 data 42)" "get_H data 44 = Inr (u16 data 44)"
    "get_H data 46 = Inr (u16 data 46)" "get_H data 48 = Inr (u16 data 48)"
  using assms by (simp_all add: get_I_u32 get_H_u16)

lemma read_table_valid:
  assumes "valid_elf data"
  shows "read_table data = Inr (program_headers data)"
  using parse_valid [OF assms] valid_elfD [OF assms]
  by (simp add: read_table_def header_reads mult.commute)

lemma reorder_buffer_valid:
  assumes "valid_elf data"
  shows "reorder_buffer data =
     ebind (merge_load_segments (py_slice data (u32 data 28) (u32 data 28 + 32 * u16 data 44))
              32 (u16 data 44))
       (\<lambda>(T, n'). rewrite_buffer data (u32 data 28) (u32 data 32) 32 (u16 data 46) (u16 data 48)
                     (32 * u16 data 44) T n')"
proof -
  note v = valid_elfD [OF assms]
  have "py_slice data 0 4 = take 4 data" by (simp add: py_slice_nonneg)
  moreover have "index data 4 = Inr 1" "index data 5 = Inr 1"
    using v by (simp_all add: index_def)
  ultimately have "check_ident data = Inr ()"
    using v by (simp add: check_ident_def)
  then show ?thesis
    using v by (simp add: reorder_buffer_def header_reads relocate_def Let_def)
qed

lemma reorder_general:
  assumes v: "valid_elf data"
    and m: "merge_load_segments (py_slice data (u32 data 28) (u32 data 28 + 32 * u16 data 44))
              32 (u16 data 44) = Inr (T, n')"
    and tab: "0 \<le> n'" "n' \<le> 65535" "int (length T) = 32 * n'"
    and tofs: "\<forall>i\<in>set (py_range n'). u32 T (32 * i + 4) \<le> u32 data 28
                 \<or> u32 data 28 + 32 * u16 data 44 \<le> u32 T (32 * i + 4)"
  shows "\<exists>out. reorder_buffer data = Inr out
           \<and> rewritten data (u32 data 28) (u32 data 32) (u16 data 46) (u16 data 48)
                (32 * u16 data 44) T n' out"
proof -
  note d = valid_elfD [OF v]
  have n: "0 \<le> u16 data 44" using u16_bounds [of data 44] by simp
  have lay: "52 \<le> u32 data 28" "0 \<le> 32 * u16 data 44"
    "u32 data 28 + 32 * u16 data 44 \<le> int (length data)" "int (length data) \<le> 4294967295"
    using d n by simp_all
  have tofs': "\<forall>i\<in>set (py_range n'). u32 data 28 < u32 T (32 * i + 4)
                 \<longrightarrow> 32 * u16 data 44 \<le> u32 T (32 * i + 4)"
    using tofs lay by force
  have sh: "0 \<le> u32 data 32" "u32 data 32 \<le> 4294967295" "0 \<le> u16 data 46" "0 \<le> u16 data 48"
    using u32_bounds [of data 32] u16_bounds [of data 46] u16_bounds [of data 48] by simp_all
  have shl: "u32 data 28 < u32 data 32 \<longrightarrow>
       u32 data 28 + 32 * u16 data 44 \<le> u32 data 32
       \<and> u32 data 32 + u16 data 48 * u16 data 46 \<le> int (length data)
       \<and> (0 < u16 data 48 \<longrightarrow> 20 \<le> u16 data 46)
       \<and> (\<forall>i\<in>set (py_range (u16 data 48)).
             u32 data 28 < u32 data (u32 data 32 + i * u16 data 46 + 16)
             \<and> u32 data (u32 data 32 + i * u16 data 46 + 16) < 4294967295
             \<longrightarrow> 32 * u16 data 44 \<le> u32 data (u32 data 32 + i * u16 data 46 + 16))"
  proof
    assume a: "u32 data 28 < u32 data 32"
    note s = valid_elf_shD [OF v a]
    have "\<forall>i\<in>set (py_range (u16 data 48)).
             u32 data (u32 data 32 + i * u16 data 46 + 16) \<le> u32 data 28
             \<or> u32 data 28 + 32 * u16 data 44 \<le> u32 data (u32 data 32 + i * u16 data 46 + 16)"
      using s(4) by (simp add: sh_offsets_def)
    then show "u32 data 28 + 32 * u16 data 44 \<le> u32 data 32
       \<and> u32 data 32 + u16 data 48 * u16 data 46 \<le> int (length data)
       \<and> (0 < u16 data 48 \<longrightarrow> 20 \<le> u16 data 46)
       \<and> (\<forall>i\<in>set (py_range (u16 data 48)).
             u32 data 28 < u32 data (u32 data 32 + i * u16 data 46 + 16)
             \<and> u32 data (u32 data 32 + i * u16 data 46 + 16) < 4294967295
             \<longrightarrow> 32 * u16 data 44 \<le> u32 data (u32 data 32 + i * u16 data 46 + 16))"
      using s(1,2,3) lay by force
  qed
  from rewrite_buffer_rewritten [OF lay tab tofs' sh shl]
  show ?thesis
    unfolding reorder_buffer_valid [OF v] m by simp
qed

section \<open>The merged table of a well-formed input\<close>

lemma two_in_list:
  assumes "a \<in> set xs" "b \<in> set xs" "a \<noteq> b"
  shows "2 \<le> length xs"
proof -
  have "card {a, b} \<le> card (set xs)" using assms by (intro card_mono) auto
  then show ?thesis using assms(3) card_length [of xs] by simp
qed

lemma length_program_headers: "int (length (program_headers data)) = u16 data 44"
  using u16_bounds [of data 44] by (simp add: program_headers_def py_range_def)

lemma code_entry_offset: "cs \<noteq> [] \<Longrightarrow> p_offset (code_entry cs) \<in> p_offset ` set cs"
proof (cases "1 < length cs")
  case True
  assume "cs \<noteq> []"
  then have "Min (p_offset ` set cs) \<in> p_offset ` set cs" by (intro Min_in) auto
  then show ?thesis using True by (simp add: code_entry_def merged_segment_def)
next
  case False
  assume "cs \<noteq> []"
  then have "cs ! 0 \<in> set cs" by simp
  then show ?thesis using False by (simp add: code_entry_def)
qed

lemma code_entry_props:
  assumes ne: "cs \<noteq> []"
    and r: "\<forall>c\<in>set cs. seg_in_range c \<and> p_type c = PT_LOAD \<and> p_vaddr c \<noteq> 0
              \<and> p_offset c + p_filesz c \<le> 4294967295 \<and> p_vaddr c + p_memsz c \<le> 4294967296"
  shows "seg_in_range (code_entry cs)" "p_type (code_entry cs) = PT_LOAD"
    "p_vaddr (code_entry cs) \<noteq> 0"
    "p_offset (code_entry cs) + p_filesz (code_entry cs) \<le> 4294967295"
    "p_vaddr (code_entry cs) + p_memsz (code_entry cs) \<le> 4294967296"
proof -
  have fin: "finite (set cs)" "set cs \<noteq> {}" using ne by auto
  have all: "seg_in_range (code_entry cs) \<and> p_type (code_entry cs) = PT_LOAD
    \<and> p_vaddr (code_entry cs) \<noteq> 0
    \<and> p_offset (code_entry cs) + p_filesz (code_entry cs) \<le> 4294967295
    \<and> p_vaddr (code_entry cs) + p_memsz (code_entry cs) \<le> 4294967296"
  proof (cases "1 < length cs")
    case False
    then have "code_entry cs = cs ! 0" "cs ! 0 \<in> set cs"
      using ne by (simp_all add: code_entry_def)
    then show ?thesis using r by metis
  next
    case True
    have m: "seg_in_range (merged_segment cs)"
      using r by (intro merged_segment_in_range [OF ne]) auto
    have "Min (p_vaddr ` set cs) \<in> p_vaddr ` set cs" using fin by (intro Min_in) auto
    then have v: "Min (p_vaddr ` set cs) \<noteq> 0" using r by auto
    have "Max ((\<lambda>c. p_offset c + p_filesz c) ` set cs) \<le> 4294967295"
      "Max ((\<lambda>c. p_vaddr c + p_memsz c) ` set cs) \<le> 4294967296"
      using fin r by (auto simp: Max_le_iff)
    then show ?thesis
      using True m v by (simp add: code_entry_def merged_segment_def)
  qed
  then show "seg_in_range (code_entry cs)" "p_type (code_entry cs) = PT_LOAD"
    "p_vaddr (code_entry cs) \<noteq> 0"
    "p_offset (code_entry cs) + p_filesz (code_entry cs) \<le> 4294967295"
    "p_vaddr (code_entry cs) + p_memsz (code_entry cs) \<le> 4294967296"
    by blast+
qed

lemma classified_code:
  assumes v: "valid_elf data"
    and c: "classify (program_headers data) None [] = (Some s, cs)"
  shows "\<forall>c\<in>set cs. c \<in> set (program_headers data) \<and> seg_in_range c \<and> p_type c = PT_LOAD
           \<and> p_vaddr c \<noteq> 0 \<and> p_offset c + p_filesz c \<le> 4294967295
           \<and> p_vaddr c + p_memsz c \<le> 4294967296"
proof
  fix x assume "x \<in> set cs"
  then have x: "x \<in> set (program_headers data)" "p_type x = PT_LOAD" "p_vaddr x \<noteq> 0"
    using classify_Some(4) [OF c] by auto
  then have "seg_in_range x"
    using parse_segments_in_range [OF parse_valid [OF v]] by blast
  then show "x \<in> set (program_headers data) \<and> seg_in_range x \<and> p_type x = PT_LOAD
           \<and> p_vaddr x \<noteq> 0 \<and> p_offset x + p_filesz x \<le> 4294967295
           \<and> p_vaddr x + p_memsz x \<le> 4294967296"
    using x valid_elf_segD(3,4) [OF v x(1)] by simp
qed

lemma merge_valid:
  assumes v: "valid_elf data"
    and c: "classify (program_headers data) None [] = (Some s, cs)" and ne: "cs \<noteq> []"
  shows "merge_load_segments (py_slice data (u32 data 28) (u32 data 28 + 32 * u16 data 44))
           32 (u16 data 44) = Inr (seg_bytes s @ seg_bytes (code_entry cs), 2)"
proof (cases "1 < length cs")
  case True
  have "\<forall>c\<in>set cs. p_offset c + p_filesz c \<le> 4294967295 \<and> p_vaddr c + p_memsz c \<le> 4294967296"
    using classified_code [OF v c] by blast
  from merge_many(1) [OF parse_valid [OF v] c True this] True
  show ?thesis by (simp add: code_entry_def)
next
  case False
  then obtain x where x: "cs = [x]" using ne by (cases cs) auto
  from merge_single [OF parse_valid [OF v] c [unfolded x]]
  show ?thesis by (simp add: code_entry_def x)
qed

lemma phdr_offset: "p_offset (phdr xs k) = u32 xs (k + 4)"
  by (simp add: phdr_def)

lemma reorder_merge:
  assumes v: "valid_elf data"
    and c: "classify (program_headers data) None [] = (Some s, cs)" and ne: "cs \<noteq> []"
  shows "\<exists>out. reorder_buffer data = Inr out
           \<and> rewritten data (u32 data 28) (u32 data 32) (u16 data 46) (u16 data 48)
                (32 * u16 data 44) (seg_bytes s @ seg_bytes (code_entry cs)) 2 out"
proof -
  let ?T = "seg_bytes s @ seg_bytes (code_entry cs)"
  note cc = classified_code [OF v c]
  have s: "s \<in> set (program_headers data)" using classify_Some(1) [OF c] .
  then have sr: "seg_in_range s"
    using parse_segments_in_range [OF parse_valid [OF v]] by blast
  have mr: "seg_in_range (code_entry cs)"
    using cc by (intro code_entry_props(1) [OF ne]) blast
  have p0: "phdr ?T 0 = s"
    using phdr_seg_bytes [OF sr, of "[]" "seg_bytes (code_entry cs)"] by simp
  have p1: "phdr ?T 32 = code_entry cs"
    using phdr_seg_bytes [OF mr, of "seg_bytes s" "[]"] by (simp add: length_seg_bytes)
  have o0: "u32 ?T 4 = p_offset s" using phdr_offset [of ?T 0] p0 by simp
  have o1: "u32 ?T 36 = p_offset (code_entry cs)" using phdr_offset [of ?T 32] p1 by simp
  obtain x where x: "x \<in> set cs" "p_offset (code_entry cs) = p_offset x"
    using code_entry_offset [OF ne] by auto
  then have xs: "x \<in> set (program_headers data)" using cc by blast
  have "\<forall>i\<in>set (py_range 2). u32 ?T (32 * i + 4) \<le> u32 data 28
          \<or> u32 data 28 + 32 * u16 data 44 \<le> u32 ?T (32 * i + 4)"
    using valid_elf_segD(2) [OF v s] valid_elf_segD(2) [OF v xs] o0 o1 x(2)
    by (simp add: py_range_2)
  then show ?thesis
    by (intro reorder_general [OF v merge_valid [OF v c ne]]) (simp_all add: length_seg_bytes)
qed

lemma rewritten_merge_table:
  assumes v: "valid_elf data"
    and c: "classify (program_headers data) None [] = (Some s, cs)" and ne: "cs \<noteq> []"
    and r: "rewritten data (u32 data 28) (u32 data 32) (u16 data 46) (u16 data 48)
                (32 * u16 data 44) (seg_bytes s @ seg_bytes (code_entry cs)) 2 out"
  shows "program_headers out
         = [moved (u32 data 28) (32 * u16 data 44) s,
            moved (u32 data 28) (32 * u16 data 44) (code_entry cs)]"
proof -
  let ?T = "seg_bytes s @ seg_bytes (code_entry cs)"
  note cc = classified_code [OF v c]
  have s: "s \<in> set (program_headers data)" using classify_Some(1) [OF c] .
  then have sr: "seg_in_range s"
    using parse_segments_in_range [OF parse_valid [OF v]] by blast
  have mr: "seg_in_range (code_entry cs)"
    using cc by (intro code_entry_props(1) [OF ne]) blast
  have p0: "phdr ?T 0 = s"
    using phdr_seg_bytes [OF sr, of "[]" "seg_bytes (code_entry cs)"] by simp
  have p1: "phdr ?T 32 = code_entry cs"
    using phdr_seg_bytes [OF mr, of "seg_bytes s" "[]"] by (simp add: length_seg_bytes)
  have h: "u16 out 42 = 32" "u32 out 28 = int (length data) - 32 * u16 data 44" "u16 out 44 = 2"
    using r valid_elfD(6) [OF v] by (simp_all add: rewritten_def)
  have t: "phdr out (int (length data) - 32 * u16 data 44 + i * 32)
            = moved (u32 data 28) (32 * u16 data 44) (phdr ?T (i * 32))"
    if "i \<in> set (py_range 2)" for i
    using r that unfolding rewritten_def moved_def by blast
  show ?thesis
    using t [of 0] t [of 1] p0 p1 h by (simp add: program_headers_def py_range_2)
qed

lemma shifted_le:
  assumes "0 \<le> S" "P + S \<le> L" "v \<le> L" "v \<le> P \<or> P + S \<le> v"
  shows "shifted P S v \<le> L - S" "shifted P S v \<le> v"
  using assms by (auto simp: shifted_def)

lemma valid_two_entries:
  assumes v: "valid_elf data"
    and c: "classify (program_headers data) None [] = (Some s, cs)" and ne: "cs \<noteq> []"
  shows "2 \<le> u16 data 44"
proof -
  obtain x where x: "x \<in> set cs" using ne by (cases cs) auto
  then have "x \<in> set (program_headers data)" "p_vaddr x \<noteq> 0"
    using classified_code [OF v c] by blast+
  moreover have "s \<in> set (program_headers data)" "p_vaddr s = 0"
    using classify_Some [OF c] by blast+
  ultimately have "2 \<le> length (program_headers data)"
    by (intro two_in_list [of s _ x]) auto
  then show ?thesis using length_program_headers [of data] by linarith
qed

lemma rewritten_merge_valid:
  assumes v: "valid_elf data"
    and c: "classify (program_headers data) None [] = (Some s, cs)" and ne: "cs \<noteq> []"
    and r: "rewritten data (u32 data 28) (u32 data 32) (u16 data 46) (u16 data 48)
                (32 * u16 data 44) (seg_bytes s @ seg_bytes (code_entry cs)) 2 out"
  shows "valid_elf out"
proof -
  define P where "P = u32 data 28"
  define S where "S = 32 * u16 data 44"
  define L where "L = int (length data)"
  note d = valid_elfD [OF v]
  note cc = classified_code [OF v c]
  have n2: "64 \<le> S" using valid_two_entries [OF v c ne] by (simp add: S_def)
  have lay: "52 \<le> P" "P + S \<le> L" "L \<le> 4294967295"
    using d by (simp_all add: P_def S_def L_def)
  have len: "int (length out) = L - S + 64"
    and low: "\<forall>k<28. out ! k = data ! k"
    and h42: "u16 out 42 = 32" and h28: "u32 out 28 = L - S" and h44: "u16 out 44 = 2"
    and h32: "u32 out 32 = (if P < u32 data 32 then u32 data 32 - S else u32 data 32)"
    using r d(6) unfolding rewritten_def P_def S_def L_def by simp_all
  have tbl: "program_headers out = [moved P S s, moved P S (code_entry cs)]"
    unfolding P_def S_def by (rule rewritten_merge_table [OF v c ne r])
  have "take 4 out = take 4 data"
    using low len lay n2 d(1) by (intro nth_take_lemma) auto
  then have magic: "take 4 out = [0x7f, 0x45, 0x4c, 0x46]" using d(3) by simp
  have id: "out ! 4 = 1" "out ! 5 = 1" using low d(4,5) by simp_all
  have s: "s \<in> set (program_headers data)" using classify_Some(1) [OF c] .
  obtain x where x: "x \<in> set cs" "p_offset (code_entry cs) = p_offset x"
    using code_entry_offset [OF ne] by auto
  then have xs: "x \<in> set (program_headers data)" using cc by blast
  have q: "p_offset (moved P S e) \<le> L - S + 64
           \<and> (p_offset (moved P S e) \<le> L - S \<or> L - S + 32 * 2 \<le> p_offset (moved P S e))
           \<and> p_offset (moved P S e) + p_filesz (moved P S e) \<le> 4294967295
           \<and> p_vaddr (moved P S e) + p_memsz (moved P S e) \<le> 4294967296"
    if e: "p_offset e \<le> L" "p_offset e \<le> P \<or> P + S \<le> p_offset e"
      "p_offset e + p_filesz e \<le> 4294967295" "p_vaddr e + p_memsz e \<le> 4294967296" for e
  proof -
    have "shifted P S (p_offset e) \<le> L - S" "shifted P S (p_offset e) \<le> p_offset e"
      using shifted_le [of S P L "p_offset e"] n2 lay e by auto
    then show ?thesis using e by (simp add: moved_def)
  qed
  have qs: "p_offset (moved P S s) \<le> L - S + 64
           \<and> (p_offset (moved P S s) \<le> L - S \<or> L - S + 32 * 2 \<le> p_offset (moved P S s))
           \<and> p_offset (moved P S s) + p_filesz (moved P S s) \<le> 4294967295
           \<and> p_vaddr (moved P S s) + p_memsz (moved P S s) \<le> 4294967296"
    using valid_elf_segD [OF v s] by (intro q) (simp_all add: P_def S_def L_def)
  have "\<forall>c\<in>set cs. seg_in_range c \<and> p_type c = PT_LOAD \<and> p_vaddr c \<noteq> 0
              \<and> p_offset c + p_filesz c \<le> 4294967295 \<and> p_vaddr c + p_memsz c \<le> 4294967296"
    using cc by blast
  note cp = code_entry_props [OF ne this]
  have qm: "p_offset (moved P S (code_entry cs)) \<le> L - S + 64
           \<and> (p_offset (moved P S (code_entry cs)) \<le> L - S
              \<or> L - S + 32 * 2 \<le> p_offset (moved P S (code_entry cs)))
           \<and> p_offset (moved P S (code_entry cs)) + p_filesz (moved P S (code_entry cs))
               \<le> 4294967295
           \<and> p_vaddr (moved P S (code_entry cs)) + p_memsz (moved P S (code_entry cs))
               \<le> 4294967296"
    using valid_elf_segD(1,2) [OF v xs] x(2) cp(4,5)
    by (intro q) (simp_all add: P_def S_def L_def)
  have sh: "u32 out 32 \<le> L - S"
  proof (cases "P < u32 data 32")
    case True
    have "0 \<le> u16 data 48 * u16 data 46"
      using u16_bounds [of data 48] u16_bounds [of data 46] by simp
    then have "u32 data 32 \<le> L"
      using valid_elf_shD(2) [OF v True [unfolded P_def]] by (simp add: L_def)
    then show ?thesis using True h32 by simp
  next
    case False
    then show ?thesis using h32 lay n2 by simp
  qed
  show ?thesis
    unfolding valid_elf_def Let_def tbl
    using len magic id h42 h28 h44 sh qs qm lay n2 by simp
qed

section \<open>When the merge returns the table it was given\<close>

lemma u32_py_slice:
  assumes "0 \<le> a" "0 \<le> k" "a + k + 4 \<le> b" "b \<le> int (length xs)"
  shows "u32 (py_slice xs a b) k = u32 xs (a + k)"
proof -
  have "int (length (py_slice xs a b)) = b - a"
    using assms by (simp add: length_py_slice)
  then have "get_I (py_slice xs a b) k = Inr (u32 (py_slice xs a b) k)"
    using assms by (intro get_I_u32) auto
  then show ?thesis using get_I_py_slice [OF assms] by simp
qed

lemma phdr_py_slice:
  assumes "0 \<le> a" "0 \<le> k" "a + k + 32 \<le> b" "b \<le> int (length xs)"
  shows "phdr (py_slice xs a b) k = phdr xs (a + k)"
proof -
  have "u32 (py_slice xs a b) (k + j) = u32 xs (a + k + j)" if "0 \<le> j" "j \<le> 28" for j
    using u32_py_slice [of a "k + j" b xs] assms that by (simp add: add.assoc)
  from this [of 0] this [of 4] this [of 8] this [of 12] this [of 16] this [of 20]
    this [of 24] this [of 28]
  show ?thesis by (simp add: phdr_def)
qed

lemma table_slice:
  assumes v: "valid_elf data" and i: "i \<in> set (py_range (u16 data 44))"
  shows "phdr (py_slice data (u32 data 28) (u32 data 28 + 32 * u16 data 44)) (i * 32)
         = phdr data (u32 data 28 + i * 32)"
    and "phdr data (u32 data 28 + i * 32) \<in> set (program_headers data)"
proof -
  note d = valid_elfD [OF v]
  have r: "0 \<le> i" "i < u16 data 44" using i by (simp_all add: set_py_range)
  show "phdr (py_slice data (u32 data 28) (u32 data 28 + 32 * u16 data 44)) (i * 32)
         = phdr data (u32 data 28 + i * 32)"
    using d r by (intro phdr_py_slice) auto
  show "phdr data (u32 data 28 + i * 32) \<in> set (program_headers data)"
    using i d(6) by (simp add: program_headers_eq)
qed

lemma reorder_keep:
  assumes v: "valid_elf data"
    and c: "classify (program_headers data) None [] = (st, cs)" and k: "st = None \<or> cs = []"
  shows "\<exists>out. reorder_buffer data = Inr out
           \<and> rewritten data (u32 data 28) (u32 data 32) (u16 data 46) (u16 data 48)
                (32 * u16 data 44)
                (py_slice data (u32 data 28) (u32 data 28 + 32 * u16 data 44)) (u16 data 44) out"
proof -
  let ?T = "py_slice data (u32 data 28) (u32 data 28 + 32 * u16 data 44)"
  note d = valid_elfD [OF v]
  have n: "0 \<le> u16 data 44" "u16 data 44 \<le> 65535" using u16_bounds [of data 44] by simp_all
  have l: "int (length ?T) = 32 * u16 data 44"
    using d n by (simp add: length_py_slice)
  have m: "merge_load_segments ?T 32 (u16 data 44) = Inr (?T, u16 data 44)"
    by (rule merge_returns_input [OF parse_valid [OF v] c k])
  have "u32 ?T (32 * i + 4) \<le> u32 data 28
        \<or> u32 data 28 + 32 * u16 data 44 \<le> u32 ?T (32 * i + 4)"
    if i: "i \<in> set (py_range (u16 data 44))" for i
  proof -
    have "u32 ?T (32 * i + 4) = p_offset (phdr ?T (i * 32))"
      by (simp add: phdr_offset mult.commute)
    also have "\<dots> = p_offset (phdr data (u32 data 28 + i * 32))"
      using table_slice(1) [OF v i] by simp
    finally show ?thesis
      using valid_elf_segD(2) [OF v table_slice(2) [OF v i]] by simp
  qed
  then have "\<forall>i\<in>set (py_range (u16 data 44)). u32 ?T (32 * i + 4) \<le> u32 data 28
        \<or> u32 data 28 + 32 * u16 data 44 \<le> u32 ?T (32 * i + 4)"
    by blast
  from reorder_general [OF v m n l this] show ?thesis .
qed

lemma rewritten_keep_table:
  assumes v: "valid_elf data"
    and r: "rewritten data (u32 data 28) (u32 data 32) (u16 data 46) (u16 data 48)
                (32 * u16 data 44)
                (py_slice data (u32 data 28) (u32 data 28 + 32 * u16 data 44)) (u16 data 44) out"
  shows "program_headers out
         = map (moved (u32 data 28) (32 * u16 data 44)) (program_headers data)"
proof -
  let ?T = "py_slice data (u32 data 28) (u32 data 28 + 32 * u16 data 44)"
  have h: "u16 out 42 = 32" "u32 out 28 = int (length data) - 32 * u16 data 44"
    "u16 out 44 = u16 data 44"
    using r valid_elfD(6) [OF v] by (simp_all add: rewritten_def)
  have t: "phdr out (int (length data) - 32 * u16 data 44 + i * 32)
            = moved (u32 data 28) (32 * u16 data 44) (phdr data (u32 data 28 + i * 32))"
    if i: "i \<in> set (py_range (u16 data 44))" for i
  proof -
    have "phdr out (int (length data) - 32 * u16 data 44 + i * 32)
            = moved (u32 data 28) (32 * u16 data 44) (phdr ?T (i * 32))"
      using r i unfolding rewritten_def moved_def by blast
    then show ?thesis using table_slice(1) [OF v i] by simp
  qed
  show ?thesis
    unfolding program_headers_eq [OF h(1)] program_headers_eq [OF valid_elfD(6) [OF v]] h
    using t by (simp add: map_eq_conv)
qed

section \<open>Section data offsets\<close>

lemma read_sh_offsets_ok:
  assumes "52 \<le> int (length data)"
    and "u32 data 32 + u16 data 48 * u16 data 46 \<le> int (length data)"
    and "u16 data 48 = 0 \<or> 20 \<le> u16 data 46"
  shows "read_sh_offsets data = Inr (sh_offsets data)"
proof -
  have se: "0 \<le> u16 data 46" using u16_bounds [of data 46] by simp
  have sh: "0 \<le> u32 data 32" using u32_bounds [of data 32] by simp
  have "get_I data (u32 data 32 + i * u16 data 46 + 16)
        = Inr (u32 data (u32 data 32 + i * u16 data 46 + 16))"
    if "i \<in> set (py_range (u16 data 48))" for i
  proof -
    have i: "0 \<le> i" "i < u16 data 48" using that by (simp_all add: set_py_range)
    then have a: "20 \<le> u16 data 46" using assms(3) by linarith
    have c: "i * u16 data 46 + u16 data 46 \<le> u16 data 48 * u16 data 46"
      using mult_step [OF i(2) se] .
    have d: "0 \<le> i * u16 data 46" using i(1) se by (rule mult_nonneg_nonneg)
    show ?thesis
    proof (rule get_I_u32)
      show "0 \<le> u32 data 32 + i * u16 data 46 + 16" using sh d by linarith
      show "u32 data 32 + i * u16 data 46 + 16 + 4 \<le> int (length data)"
        using a c assms(2) by linarith
    qed
  qed
  then have "map_err (\<lambda>i. get_I data (u32 data 32 + i * u16 data 46 + 16))
               (py_range (u16 data 48))
             = Inr (map (\<lambda>i. u32 data (u32 data 32 + i * u16 data 46 + 16))
                      (py_range (u16 data 48)))"
    by (rule map_err_Inr)
  then show ?thesis
    using assms(1) by (simp add: read_sh_offsets_def header_reads sh_offsets_def)
qed

lemma rewritten_sh_offsets:
  assumes v: "valid_elf data" and a: "u32 data 28 < u32 data 32" and n: "0 \<le> n'"
    and r: "rewritten data (u32 data 28) (u32 data 32) (u16 data 46) (u16 data 48)
                (32 * u16 data 44) T n' out"
  shows "sh_offsets out = map (shifted_sh (u32 data 28) (32 * u16 data 44)) (sh_offsets data)"
    and "read_sh_offsets out = Inr (sh_offsets out)"
    and "read_sh_offsets data = Inr (sh_offsets data)"
proof -
  note d = valid_elfD [OF v]
  note s = valid_elf_shD [OF v a]
  have h: "u32 out 32 = u32 data 32 - 32 * u16 data 44" "u16 out 46 = u16 data 46"
    "u16 out 48 = u16 data 48"
    "int (length out) = int (length data) - 32 * u16 data 44 + 32 * n'"
    using r a by (simp_all add: rewritten_def)
  have e: "\<forall>i\<in>set (py_range (u16 data 48)).
        u32 out (u32 data 32 - 32 * u16 data 44 + i * u16 data 46 + 16)
        = shifted_sh (u32 data 28) (32 * u16 data 44)
            (u32 data (u32 data 32 + i * u16 data 46 + 16))"
    using r a unfolding rewritten_def by blast
  show "sh_offsets out = map (shifted_sh (u32 data 28) (32 * u16 data 44)) (sh_offsets data)"
    unfolding sh_offsets_def h using e by (simp add: map_eq_conv)
  show "read_sh_offsets data = Inr (sh_offsets data)"
    using d(1) s(2,3) by (rule read_sh_offsets_ok)
  have n44: "0 \<le> u16 data 44" using u16_bounds [of data 44] by simp
  show "read_sh_offsets out = Inr (sh_offsets out)"
  proof (rule read_sh_offsets_ok)
    show "52 \<le> int (length out)" using h(4) d(7,8) n n44 by linarith
    show "u32 out 32 + u16 out 48 * u16 out 46 \<le> int (length out)"
      unfolding h using s(2) n by linarith
    show "u16 out 48 = 0 \<or> 20 \<le> u16 out 46" unfolding h using s(3) .
  qed
qed

lemma reorder_valid:
  assumes v: "valid_elf data"
  shows "\<exists>out T n'. reorder_buffer data = Inr out \<and> 0 \<le> n' \<and>
           rewritten data (u32 data 28) (u32 data 32) (u16 data 46) (u16 data 48)
             (32 * u16 data 44) T n' out"
proof -
  obtain st cs where c: "classify (program_headers data) None [] = (st, cs)"
    by (cases "classify (program_headers data) None []") auto
  have n44: "0 \<le> u16 data 44" using u16_bounds [of data 44] by simp
  show ?thesis
  proof (cases "st = None \<or> cs = []")
    case True
    from reorder_keep [OF v c True] n44 show ?thesis by blast
  next
    case False
    then obtain s where s: "st = Some s" and ne: "cs \<noteq> []" by auto
    from reorder_merge [OF v c [unfolded s] ne] show ?thesis
      by (metis zero_le_numeral)
  qed
qed

section \<open>The second run\<close>

lemma code_entry_single [simp]: "code_entry [c] = c"
  by (simp add: code_entry_def)

lemma moved_id: "p_offset seg \<le> P \<Longrightarrow> moved P S seg = seg"
  by (simp add: moved_def shifted_def)

lemma moved_fields [simp]:
  "p_type (moved P S seg) = p_type seg" "p_vaddr (moved P S seg) = p_vaddr seg"
  "p_paddr (moved P S seg) = p_paddr seg" "p_filesz (moved P S seg) = p_filesz seg"
  "p_memsz (moved P S seg) = p_memsz seg" "p_flags (moved P S seg) = p_flags seg"
  "p_align (moved P S seg) = p_align seg"
  "p_offset (moved P S seg) = shifted P S (p_offset seg)"
  by (simp_all add: moved_def)

lemma merged_offsets_le:
  assumes v: "valid_elf data"
    and c: "classify (program_headers data) None [] = (Some s, cs)" and ne: "cs \<noteq> []"
  shows "shifted (u32 data 28) (32 * u16 data 44) (p_offset s)
           \<le> int (length data) - 32 * u16 data 44"
    and "shifted (u32 data 28) (32 * u16 data 44) (p_offset (code_entry cs))
           \<le> int (length data) - 32 * u16 data 44"
proof -
  note d = valid_elfD [OF v]
  have n: "0 \<le> 32 * u16 data 44" using u16_bounds [of data 44] by simp
  have s: "s \<in> set (program_headers data)" using classify_Some(1) [OF c] .
  obtain x where x: "x \<in> set cs" "p_offset (code_entry cs) = p_offset x"
    using code_entry_offset [OF ne] by auto
  then have xs: "x \<in> set (program_headers data)" using classified_code [OF v c] by blast
  show "shifted (u32 data 28) (32 * u16 data 44) (p_offset s)
           \<le> int (length data) - 32 * u16 data 44"
    using valid_elf_segD(1,2) [OF v s] by (intro shifted_le(1) [OF n d(8)])
  show "shifted (u32 data 28) (32 * u16 data 44) (p_offset (code_entry cs))
           \<le> int (length data) - 32 * u16 data 44"
    unfolding x(2) using valid_elf_segD(1,2) [OF v xs] by (intro shifted_le(1) [OF n d(8)])
qed

lemma second_run:
  assumes v: "valid_elf data"
    and c: "classify (program_headers data) None [] = (Some s, cs)" and ne: "cs \<noteq> []"
    and r: "rewritten data (u32 data 28) (u32 data 32) (u16 data 46) (u16 data 48)
                (32 * u16 data 44) (seg_bytes s @ seg_bytes (code_entry cs)) 2 out"
  shows "\<exists>out2. reorder_buffer out = Inr out2 \<and> u16 out2 44 = u16 out 44
           \<and> u32 out2 28 = u32 out 28 \<and> program_headers out2 = program_headers out
           \<and> length out2 = length out"
proof -
  define P where "P = u32 data 28"
  define S where "S = 32 * u16 data 44"
  let ?s = "moved P S s" and ?m = "moved P S (code_entry cs)"
  have vo: "valid_elf out" by (rule rewritten_merge_valid [OF v c ne r])
  have tbl: "program_headers out = [?s, ?m]"
    unfolding P_def S_def by (rule rewritten_merge_table [OF v c ne r])
  have h: "int (length out) = int (length data) - S + 64" "u32 out 28 = int (length data) - S"
    "u16 out 44 = 2"
    using r by (simp_all add: rewritten_def S_def)
  have "\<forall>c\<in>set cs. seg_in_range c \<and> p_type c = PT_LOAD \<and> p_vaddr c \<noteq> 0
              \<and> p_offset c + p_filesz c \<le> 4294967295 \<and> p_vaddr c + p_memsz c \<le> 4294967296"
    using classified_code [OF v c] by blast
  note cp = code_entry_props [OF ne this]
  have c2: "classify (program_headers out) None [] = (Some ?s, [?m])"
    unfolding tbl using classify_Some(2,3) [OF c] cp(2,3) by simp
  from reorder_merge [OF vo c2] obtain out2 where
    o2: "reorder_buffer out = Inr out2"
    and r2: "rewritten out (u32 out 28) (u32 out 32) (u16 out 46) (u16 out 48)
                (32 * u16 out 44) (seg_bytes ?s @ seg_bytes (code_entry [?m])) 2 out2"
    by auto
  have h2: "int (length out2) = int (length out) - 32 * u16 out 44 + 64"
    "u32 out2 28 = int (length out) - 32 * u16 out 44" "u16 out2 44 = 2"
    using r2 by (simp_all add: rewritten_def)
  have le: "p_offset ?s \<le> u32 out 28" "p_offset ?m \<le> u32 out 28"
    using merged_offsets_le [OF v c ne] h(2) by (simp_all add: P_def S_def)
  have "program_headers out2
        = [moved (u32 out 28) (32 * u16 out 44) ?s,
           moved (u32 out 28) (32 * u16 out 44) (code_entry [?m])]"
    by (rule rewritten_merge_table [OF vo c2 _ r2]) simp
  then have t2: "program_headers out2 = program_headers out"
    unfolding tbl using le by (simp add: moved_id)
  have "length out2 = length out" using h2(1) h(3) by simp
  then show ?thesis using o2 h h2 t2 by simp
qed

section \<open>Roles, tables and the files written\<close>

lemma code_segs_eq:
  "code_segs data
   = filter (\<lambda>seg. p_type seg = PT_LOAD \<and> p_vaddr seg \<noteq> 0) (program_headers data)"
  by (simp add: code_segs_def classify_eq)

lemma storage_seg_None:
  "storage_seg data = None
   \<longleftrightarrow> (\<forall>seg\<in>set (program_headers data). \<not> (p_type seg = PT_LOAD \<and> p_vaddr seg = 0))"
proof -
  have "storage_seg data = None
        \<longleftrightarrow> classify (program_headers data) None [] = (None, code_segs data)"
    by (simp add: storage_seg_def code_segs_def prod_eq_iff)
  then show ?thesis by (simp add: classify_None code_segs_eq)
qed

lemma classify_roles:
  "classify (program_headers data) None [] = (storage_seg data, code_segs data)"
  by (simp add: storage_seg_def code_segs_def)

lemma merged_code_seg_eq: "cs \<noteq> [] \<Longrightarrow> merged_code_seg cs = Inr (code_entry cs)"
  by (cases cs) (simp_all add: merged_code_seg_def code_entry_def merge_code_eq)

lemma read_table_ok:
  assumes "52 \<le> int (length data)" "u16 data 42 = 32"
    and "u32 data 28 + 32 * u16 data 44 \<le> int (length data)"
  shows "read_table data = Inr (program_headers data)"
proof -
  have "0 \<le> u32 data 28" "0 \<le> u16 data 44"
    using u32_bounds [of data 28] u16_bounds [of data 44] by simp_all
  from parse_segments_ok [OF this assms(3)] assms(1,2)
  show ?thesis
    by (simp add: read_table_def header_reads mult.commute program_headers_eq)
qed

lemma reorder_elf_writes:
  "fs input_file = Some data \<Longrightarrow> reorder_buffer data = Inr out
   \<Longrightarrow> reorder_elf fs input_file output_file = (fs(output_file \<mapsto> out), Inr ())"
  by (simp add: reorder_elf_def)

lemma main_writes:
  "fs input_file = Some data \<Longrightarrow> reorder_buffer data = Inr out
   \<Longrightarrow> main fs [prog, input_file, output_file] = (fs(output_file \<mapsto> out), 0)"
  by (simp add: main_def reorder_elf_writes)

section \<open>The three files, evaluated\<close>

lemma example_elf_valid: "valid_elf example_elf"
  by code_simp

lemma example_elf_header:
  "int (length example_elf) = 272" "u32 example_elf 28 = 52" "u32 example_elf 32 = 192"
  "u16 example_elf 42 = 32" "u16 example_elf 44 = 4" "u16 example_elf 46 = 40"
  "u16 example_elf 48 = 2"
  by code_simp+

lemma example_elf_roles:
  "storage_seg example_elf
   = Some \<lparr>p_type = 1, p_offset = 180, p_vaddr = 0, p_paddr = 0, p_filesz = 4, p_memsz = 4,
           p_flags = 4, p_align = 4\<rparr>"
  "code_segs example_elf
   = [\<lparr>p_type = 1, p_offset = 184, p_vaddr = 4096, p_paddr = 4096, p_filesz = 4, p_memsz = 4,
        p_flags = 5, p_align = 16\<rparr>,
      \<lparr>p_type = 1, p_offset = 188, p_vaddr = 4608, p_paddr = 4608, p_filesz = 4, p_memsz = 8,
        p_flags = 6, p_align = 8\<rparr>]"
  by code_simp+

lemma example_elf_merged:
  "merged_code_seg (code_segs example_elf)
   = Inr \<lparr>p_type = 1, p_offset = 184, p_vaddr = 4096, p_paddr = 4096, p_filesz = 8,
          p_memsz = 520, p_flags = 7, p_align = 4\<rparr>"
  by code_simp

lemma example_elf_table:
  "read_table example_elf
   = Inr [\<lparr>p_type = 1, p_offset = 180, p_vaddr = 0, p_paddr = 0, p_filesz = 4, p_memsz = 4,
           p_flags = 4, p_align = 4\<rparr>,
          \<lparr>p_type = 1, p_offset = 184, p_vaddr = 4096, p_paddr = 4096, p_filesz = 4,
           p_memsz = 4, p_flags = 5, p_align = 16\<rparr>,
          \<lparr>p_type = 4, p_offset = 188, p_vaddr = 0, p_paddr = 0, p_filesz = 4, p_memsz = 4,
           p_flags = 4, p_align = 4\<rparr>,
          \<lparr>p_type = 1, p_offset = 188, p_vaddr = 4608, p_paddr = 4608, p_filesz = 4,
           p_memsz = 8, p_flags = 6, p_align = 8\<rparr>]"
  by code_simp


lemma single_code_elf_valid: "valid_elf single_code_elf"
  by code_simp

lemma single_code_elf_header:
  "int (length single_code_elf) = 164" "u32 single_code_elf 28 = 92"
  "u32 single_code_elf 32 = 52" "u16 single_code_elf 42 = 32" "u16 single_code_elf 44 = 2"
  by code_simp+

lemma single_code_elf_roles:
  "storage_seg single_code_elf
   = Some \<lparr>p_type = 1, p_offset = 156, p_vaddr = 0, p_paddr = 0, p_filesz = 4, p_memsz = 4,
           p_flags = 4, p_align = 4\<rparr>"
  "code_segs single_code_elf
   = [\<lparr>p_type = 1, p_offset = 160, p_vaddr = 32768, p_paddr = 131072, p_filesz = 4,
        p_memsz = 4, p_flags = 5, p_align = 4096\<rparr>]"
  by code_simp+

lemma single_code_elf_run: "reorder_buffer single_code_elf = Inr single_code_out"
  by code_simp

lemma single_code_reads:
  "get_I single_code_elf 28 = Inr 92" "get_I single_code_elf 32 = Inr 52"
  "get_H single_code_elf 42 = Inr 32" "get_H single_code_elf 44 = Inr 2"
  "read_sh_offsets single_code_elf = Inr [156]"
  "get_I single_code_out 28 = Inr 100" "get_H single_code_out 44 = Inr 2"
  "get_I single_code_out 32 = Inr 52"
  "read_sh_offsets single_code_out = Inr [156]"
  by code_simp+

lemma single_code_out_table:
  "read_table single_code_out
   = Inr [\<lparr>p_type = 1, p_offset = 92, p_vaddr = 0, p_paddr = 0, p_filesz = 4, p_memsz = 4,
           p_flags = 4, p_align = 4\<rparr>,
          \<lparr>p_type = 1, p_offset = 96, p_vaddr = 32768, p_paddr = 131072, p_filesz = 4,
           p_memsz = 4, p_flags = 5, p_align = 4096\<rparr>]"
  by code_simp

lemma no_storage_elf_valid: "valid_elf no_storage_elf"
  by code_simp

lemma no_storage_elf_header:
  "int (length no_storage_elf) = 124" "u32 no_storage_elf 28 = 52"
  "u32 no_storage_elf 32 = 0" "u16 no_storage_elf 42 = 32" "u16 no_storage_elf 44 = 2"
  by code_simp+

lemma no_storage_elf_roles: "storage_seg no_storage_elf = None"
  by code_simp

lemma no_storage_elf_table:
  "program_headers no_storage_elf
   = [\<lparr>p_type = 1, p_offset = 116, p_vaddr = 32768, p_paddr = 32768, p_filesz = 4,
        p_memsz = 4, p_flags = 5, p_align = 4\<rparr>,
      \<lparr>p_type = 4, p_offset = 120, p_vaddr = 0, p_paddr = 0, p_filesz = 4, p_memsz = 4,
        p_flags = 4, p_align = 4\<rparr>]"
  "read_table no_storage_elf = Inr (program_headers no_storage_elf)"
  by code_simp+

lemma no_storage_elf_run: "reorder_buffer no_storage_elf = Inr no_storage_out"
  by code_simp

lemma bad_offset_elf_reads:
  "check_ident bad_offset_elf = Inr ()"
  "read_table bad_offset_elf
   = Inr [\<lparr>p_type = 1, p_offset = 60, p_vaddr = 32768, p_paddr = 32768, p_filesz = 4,
           p_memsz = 4, p_flags = 5, p_align = 4\<rparr>,
          \<lparr>p_type = 4, p_offset = 120, p_vaddr = 0, p_paddr = 0, p_filesz = 4, p_memsz = 4,
           p_flags = 4, p_align = 4\<rparr>]"
  "storage_seg bad_offset_elf = None"
  by code_simp+

lemma bad_offset_elf_run: "reorder_buffer bad_offset_elf = Inl StructError"
  by code_simp

section \<open>What a run on a well-formed file returns\<close>

lemma rewritten_reads:
  assumes "rewritten data P shoff se sn S T n out" "52 \<le> int (length out)"
  shows "get_I out 28 = Inr (int (length data) - S)" "get_H out 44 = Inr n"
    "get_I out 32 = Inr (if P < shoff then shoff - S else u32 data 32)"
  using assms header_reads [OF assms(2)] by (simp_all add: rewritten_def)

lemma merge_case:
  assumes v: "valid_elf data" and st: "storage_seg data = Some s" and ne: "code_segs data \<noteq> []"
  shows "\<exists>out. reorder_buffer data = Inr out \<and> valid_elf out
           \<and> int (length out) = int (length data) - 32 * u16 data 44 + 64
           \<and> get_I out 28 = Inr (int (length data) - 32 * u16 data 44)
           \<and> get_H out 44 = Inr 2
           \<and> read_table out
               = Inr [moved (u32 data 28) (32 * u16 data 44) s,
                      moved (u32 data 28) (32 * u16 data 44) (code_entry (code_segs data))]
           \<and> (\<exists>out2. reorder_buffer out = Inr out2 \<and> get_H out2 44 = Inr 2
                  \<and> get_I out2 28 = Inr (int (length data) - 32 * u16 data 44)
                  \<and> read_table out2 = read_table out \<and> length out2 = length out)"
proof -
  have c: "classify (program_headers data) None [] = (Some s, code_segs data)"
    using classify_roles [of data] st by simp
  from reorder_merge [OF v c ne] obtain out where
    o: "reorder_buffer data = Inr out"
    and r: "rewritten data (u32 data 28) (u32 data 32) (u16 data 46) (u16 data 48)
              (32 * u16 data 44) (seg_bytes s @ seg_bytes (code_entry (code_segs data))) 2 out"
    by auto
  have vo: "valid_elf out" by (rule rewritten_merge_valid [OF v c ne r])
  have l: "int (length out) = int (length data) - 32 * u16 data 44 + 64"
    using r by (simp add: rewritten_def)
  have lo: "52 \<le> int (length out)" using valid_elfD(1) [OF vo] .
  note h = rewritten_reads(1,2) [OF r lo]
  have t: "read_table out
           = Inr [moved (u32 data 28) (32 * u16 data 44) s,
                  moved (u32 data 28) (32 * u16 data 44) (code_entry (code_segs data))]"
    using read_table_valid [OF vo] rewritten_merge_table [OF v c ne r] by simp
  from second_run [OF v c ne r] obtain out2 where
    o2: "reorder_buffer out = Inr out2" "u16 out2 44 = u16 out 44" "u32 out2 28 = u32 out 28"
      "program_headers out2 = program_headers out" "length out2 = length out"
    by auto
  have h0: "u32 out 28 = int (length data) - 32 * u16 data 44" "u16 out 44 = 2"
    "u16 out 42 = 32"
    using r valid_elfD(6) [OF v] by (simp_all add: rewritten_def)
  have lo2: "52 \<le> int (length out2)" using lo o2(5) by simp
  have "u16 out2 42 = 32"
  proof -
    have c2: "classify (program_headers out) None [] = (storage_seg out, code_segs out)"
      by (rule classify_roles)
    obtain out3 T n' where "reorder_buffer out = Inr out3"
      "rewritten out (u32 out 28) (u32 out 32) (u16 out 46) (u16 out 48)
         (32 * u16 out 44) T n' out3"
      using reorder_valid [OF vo] by blast
    then show ?thesis using o2(1) h0(3) by (simp add: rewritten_def)
  qed
  then have "read_table out2 = Inr (program_headers out2)"
    using lo2 o2 h0 l by (intro read_table_ok) simp_all
  then have t2: "read_table out2 = read_table out"
    using o2(4) read_table_valid [OF vo] by simp
  have "get_H out2 44 = Inr 2" "get_I out2 28 = Inr (int (length data) - 32 * u16 data 44)"
    using header_reads [OF lo2] o2 h0 by simp_all
  then show ?thesis using o vo l h t o2(1,5) t2 by blast
qed

lemma keep_case:
  assumes v: "valid_elf data" and k: "storage_seg data = None \<or> code_segs data = []"
  shows "\<exists>out. reorder_buffer data = Inr out
           \<and> int (length out) = int (length data)
           \<and> get_I out 28 = Inr (int (length data) - 32 * u16 data 44)
           \<and> get_H out 44 = Inr (u16 data 44)
           \<and> read_table out
               = Inr (map (moved (u32 data 28) (32 * u16 data 44)) (program_headers data))
           \<and> get_I out 32 = Inr (if u32 data 28 < u32 data 32
                                   then u32 data 32 - 32 * u16 data 44 else u32 data 32)
           \<and> (u32 data 28 < u32 data 32 \<longrightarrow>
                read_sh_offsets out
                = Inr (map (shifted_sh (u32 data 28) (32 * u16 data 44)) (sh_offsets data)))"
proof -
  note d = valid_elfD [OF v]
  from reorder_keep [OF v classify_roles k] obtain out where
    o: "reorder_buffer data = Inr out"
    and r: "rewritten data (u32 data 28) (u32 data 32) (u16 data 46) (u16 data 48)
              (32 * u16 data 44)
              (py_slice data (u32 data 28) (u32 data 28 + 32 * u16 data 44)) (u16 data 44) out"
    by auto
  have l: "int (length out) = int (length data)" using r by (simp add: rewritten_def)
  have lo: "52 \<le> int (length out)" using l d(1) by simp
  note h = rewritten_reads [OF r lo]
  have h0: "u16 out 42 = 32" "u32 out 28 = int (length data) - 32 * u16 data 44"
    "u16 out 44 = u16 data 44"
    using r d(6) by (simp_all add: rewritten_def)
  have "read_table out = Inr (program_headers out)"
    using lo h0 l by (intro read_table_ok) simp_all
  then have t: "read_table out
      = Inr (map (moved (u32 data 28) (32 * u16 data 44)) (program_headers data))"
    using rewritten_keep_table [OF v r] by simp
  have n: "0 \<le> u16 data 44" using u16_bounds [of data 44] by simp
  have s: "u32 data 28 < u32 data 32 \<longrightarrow>
       read_sh_offsets out
       = Inr (map (shifted_sh (u32 data 28) (32 * u16 data 44)) (sh_offsets data))"
    using rewritten_sh_offsets(1,2) [OF v _ n r] by simp
  show ?thesis using o l h t s by blast
qed



lemma merged_roles:
  assumes v: "valid_elf data" and st: "storage_seg data = Some s" and ne: "code_segs data \<noteq> []"
  shows "p_type s = PT_LOAD" "p_vaddr s = 0" "s \<in> set (program_headers data)"
    "p_type (code_entry (code_segs data)) = PT_LOAD"
    "p_vaddr (code_entry (code_segs data)) \<noteq> 0"
proof -
  have c: "classify (program_headers data) None [] = (Some s, code_segs data)"
    using classify_roles [of data] st by simp
  show "p_type s = PT_LOAD" "p_vaddr s = 0" "s \<in> set (program_headers data)"
    using classify_Some(1,2,3) [OF c] by simp_all
  have "\<forall>c\<in>set (code_segs data). seg_in_range c \<and> p_type c = PT_LOAD \<and> p_vaddr c \<noteq> 0
          \<and> p_offset c + p_filesz c \<le> 4294967295 \<and> p_vaddr c + p_memsz c \<le> 4294967296"
    using classified_code [OF v c] by blast
  from code_entry_props(2,3) [OF ne this]
  show "p_type (code_entry (code_segs data)) = PT_LOAD"
    "p_vaddr (code_entry (code_segs data)) \<noteq> 0" .
qed

section \<open>Refusal of a file with a bad identification\<close>

text \<open>
  A file of five bytes with the ELF signature and the class byte 2 is not refused
  with "Only 32-bit ELF supported": line 131 reads the byte at position 5, which
  is not there, before line 133 looks at the class, and the run ends with an
  IndexError. No output is written.
\<close>

theorem reorder_elf_short_file_index_error:
  "([0x7f, 0x45, 0x4c, 0x46, 2] :: byte list) ! 4 = 2
   \<and> check_ident [0x7f, 0x45, 0x4c, 0x46, 2] = Inl IndexError
   \<and> reorder_elf (Map.empty(''in.elf'' \<mapsto> [0x7f, 0x45, 0x4c, 0x46, 2])) ''in.elf'' ''out.stldr''
       = (Map.empty(''in.elf'' \<mapsto> [0x7f, 0x45, 0x4c, 0x46, 2]), Inl IndexError)"
  by (simp add: reorder_elf_def reorder_buffer_def check_ident_def index_def py_slice_def
      norm_index_def)

text \<open>
  Claim C7, as amended. A file whose first four bytes are not the ELF signature is
  refused with "Not an ELF file"; a file of at least six bytes with the signature
  and a class byte other than 1 with "Only 32-bit ELF supported"; one with the
  signature, class 1 and a data byte other than 1 with "Only little-endian
  supported". In each of these cases, and for every file with a bad signature,
  class byte or data byte whatever its length, the error is the result of the
  validation of lines 124-139 itself, which runs before the header fields are
  read and before any edit of the buffer; the run returns that error, the files
  are left as they were, and the script exits with status 1.
\<close>

theorem reorder_elf_rejects_bad_ident:
  assumes "fs input_file = Some data"
  shows "(py_slice data 0 4 \<noteq> [0x7f, 0x45, 0x4c, 0x46]
            \<longrightarrow> check_ident data = Inl NotAnElfFile
                \<and> reorder_elf fs input_file output_file = (fs, Inl NotAnElfFile))
       \<and> (py_slice data 0 4 = [0x7f, 0x45, 0x4c, 0x46] \<and> 6 \<le> length data \<and> data ! 4 \<noteq> 1
            \<longrightarrow> check_ident data = Inl Only32BitSupported
                \<and> reorder_elf fs input_file output_file = (fs, Inl Only32BitSupported))
       \<and> (py_slice data 0 4 = [0x7f, 0x45, 0x4c, 0x46] \<and> 6 \<le> length data \<and> data ! 4 = 1
            \<and> data ! 5 \<noteq> 1
            \<longrightarrow> check_ident data = Inl OnlyLittleEndian
                \<and> reorder_elf fs input_file output_file = (fs, Inl OnlyLittleEndian))
       \<and> (py_slice data 0 4 \<noteq> [0x7f, 0x45, 0x4c, 0x46]
            \<or> (4 < length data \<and> data ! 4 \<noteq> 1) \<or> (5 < length data \<and> data ! 5 \<noteq> 1)
            \<longrightarrow> (\<exists>e. check_ident data = Inl e
                     \<and> reorder_elf fs input_file output_file = (fs, Inl e))
                \<and> fst (reorder_elf fs input_file output_file) = fs
                \<and> (\<exists>e. snd (reorder_elf fs input_file output_file) = Inl e)
                \<and> main fs [prog, input_file, output_file] = (fs, 1))"
proof (intro conjI impI)
  assume "py_slice data 0 4 \<noteq> [0x7f, 0x45, 0x4c, 0x46]"
  then show c: "check_ident data = Inl NotAnElfFile" by (rule check_ident_bad_magic)
  show "reorder_elf fs input_file output_file = (fs, Inl NotAnElfFile)"
    using assms c by (simp add: reorder_elf_def reorder_buffer_stops)
next
  assume "py_slice data 0 4 = [0x7f, 0x45, 0x4c, 0x46] \<and> 6 \<le> length data \<and> data ! 4 \<noteq> 1"
  then show c: "check_ident data = Inl Only32BitSupported"
    by (simp add: check_ident_bad_class)
  show "reorder_elf fs input_file output_file = (fs, Inl Only32BitSupported)"
    using assms c by (simp add: reorder_elf_def reorder_buffer_stops)
next
  assume "py_slice data 0 4 = [0x7f, 0x45, 0x4c, 0x46] \<and> 6 \<le> length data \<and> data ! 4 = 1
            \<and> data ! 5 \<noteq> 1"
  then show c: "check_ident data = Inl OnlyLittleEndian"
    by (simp add: check_ident_bad_endian)
  show "reorder_elf fs input_file output_file = (fs, Inl OnlyLittleEndian)"
    using assms c by (simp add: reorder_elf_def reorder_buffer_stops)
next
  assume bad: "py_slice data 0 4 \<noteq> [0x7f, 0x45, 0x4c, 0x46]
            \<or> (4 < length data \<and> data ! 4 \<noteq> 1) \<or> (5 < length data \<and> data ! 5 \<noteq> 1)"
  then obtain e where e: "check_ident data = Inl e"
    using check_ident_bad_fails by blast
  have r: "reorder_elf fs input_file output_file = (fs, Inl e)"
    using assms e by (simp add: reorder_elf_def reorder_buffer_stops)
  show "\<exists>e. check_ident data = Inl e \<and> reorder_elf fs input_file output_file = (fs, Inl e)"
    using e r by blast
  show "fst (reorder_elf fs input_file output_file) = fs" using r by simp
  show "\<exists>e. snd (reorder_elf fs input_file output_file) = Inl e" using r by simp
  show "main fs [prog, input_file, output_file] = (fs, 1)"
    using r by (simp add: main_def)
qed

text \<open>The three refusals on three small files, and the exit status for the last.\<close>

theorem reorder_elf_rejects_bad_ident_witness:
  "check_ident [0x4d, 0x5a, 0x90, 0, 3, 0] = Inl NotAnElfFile
   \<and> reorder_elf (Map.empty(''in.elf'' \<mapsto> [0x4d, 0x5a, 0x90, 0, 3, 0])) ''in.elf'' ''out.stldr''
     = (Map.empty(''in.elf'' \<mapsto> [0x4d, 0x5a, 0x90, 0, 3, 0]), Inl NotAnElfFile)
   \<and> check_ident [0x7f, 0x45, 0x4c, 0x46, 2, 1, 1, 0] = Inl Only32BitSupported
   \<and> reorder_elf (Map.empty(''in.elf'' \<mapsto> [0x7f, 0x45, 0x4c, 0x46, 2, 1, 1, 0])) ''in.elf'' ''out.stldr''
     = (Map.empty(''in.elf'' \<mapsto> [0x7f, 0x45, 0x4c, 0x46, 2, 1, 1, 0]), Inl Only32BitSupported)
   \<and> check_ident [0x7f, 0x45, 0x4c, 0x46, 1, 2, 1, 0] = Inl OnlyLittleEndian
   \<and> reorder_elf (Map.empty(''in.elf'' \<mapsto> [0x7f, 0x45, 0x4c, 0x46, 1, 2, 1, 0])) ''in.elf'' ''out.stldr''
     = (Map.empty(''in.elf'' \<mapsto> [0x7f, 0x45, 0x4c, 0x46, 1, 2, 1, 0]), Inl OnlyLittleEndian)
   \<and> main (Map.empty(''in.elf'' \<mapsto> [0x7f, 0x45, 0x4c, 0x46, 1, 2, 1, 0]))
        [''reorder_elf.py'', ''in.elf'', ''out.stldr'']
     = (Map.empty(''in.elf'' \<mapsto> [0x7f, 0x45, 0x4c, 0x46, 1, 2, 1, 0]), 1)"
  using reorder_elf_rejects_bad_ident
          [of "Map.empty(''in.elf'' \<mapsto> [0x4d, 0x5a, 0x90, 0, 3, 0])" "''in.elf''"
              "[0x4d, 0x5a, 0x90, 0, 3, 0]" "''out.stldr''" "''reorder_elf.py''"]
        reorder_elf_rejects_bad_ident
          [of "Map.empty(''in.elf'' \<mapsto> [0x7f, 0x45, 0x4c, 0x46, 2, 1, 1, 0])" "''in.elf''"
              "[0x7f, 0x45, 0x4c, 0x46, 2, 1, 1, 0]" "''out.stldr''" "''reorder_elf.py''"]
        reorder_elf_rejects_bad_ident
          [of "Map.empty(''in.elf'' \<mapsto> [0x7f, 0x45, 0x4c, 0x46, 1, 2, 1, 0])" "''in.elf''"
              "[0x7f, 0x45, 0x4c, 0x46, 1, 2, 1, 0]" "''out.stldr''" "''reorder_elf.py''"]
  by (simp add: py_slice_def norm_index_def)

section \<open>The table of two entries\<close>

text \<open>
  Claim C6. For every well-formed input with a storage entry and at least one
  code entry, the run returns a buffer whose header counts 2 program headers and
  whose table, read back, has exactly two entries: first the storage entry, then
  the entry that lines 62-93 make of the code entries (each with its file offset
  shifted by lines 197-210); and the length of the buffer is the length of the
  input less (e\_phnum - 2) * e\_phentsize.
\<close>

theorem output_table_two_entries:
  assumes "valid_elf data" "storage_seg data = Some s" "code_segs data \<noteq> []"
  shows "\<exists>out m. reorder_buffer data = Inr out
           \<and> merged_code_seg (code_segs data) = Inr m
           \<and> get_H out 44 = Inr 2
           \<and> read_table out
               = Inr [moved (u32 data 28) (u16 data 42 * u16 data 44) s,
                      moved (u32 data 28) (u16 data 42 * u16 data 44) m]
           \<and> int (length out) = int (length data) - (u16 data 44 - 2) * u16 data 42"
proof -
  from merge_case [OF assms] obtain out where
    o: "reorder_buffer data = Inr out" "get_H out 44 = Inr 2"
      "int (length out) = int (length data) - 32 * u16 data 44 + 64"
      "read_table out
       = Inr [moved (u32 data 28) (32 * u16 data 44) s,
              moved (u32 data 28) (32 * u16 data 44) (code_entry (code_segs data))]"
    by blast
  have e: "u16 data 42 = 32" using valid_elfD(6) [OF assms(1)] .
  have m: "merged_code_seg (code_segs data) = Inr (code_entry (code_segs data))"
    using assms(3) by (rule merged_code_seg_eq)
  have "int (length out) = int (length data) - (u16 data 44 - 2) * u16 data 42"
    using o(3) e by simp
  then show ?thesis using o m e by simp
qed

text \<open>On the file of 272 bytes with four entries: two entries, 208 bytes.\<close>

theorem output_table_two_entries_witness:
  "\<exists>out. reorder_buffer example_elf = Inr out
     \<and> get_H out 44 = Inr 2
     \<and> read_table out
         = Inr [\<lparr>p_type = 1, p_offset = 52, p_vaddr = 0, p_paddr = 0, p_filesz = 4,
                 p_memsz = 4, p_flags = 4, p_align = 4\<rparr>,
                \<lparr>p_type = 1, p_offset = 56, p_vaddr = 4096, p_paddr = 4096, p_filesz = 8,
                 p_memsz = 520, p_flags = 7, p_align = 4\<rparr>]
     \<and> int (length out) = 208"
proof -
  have ne: "code_segs example_elf \<noteq> []" by (simp add: example_elf_roles(2))
  from output_table_two_entries [OF example_elf_valid example_elf_roles(1) ne]
  obtain out m where
    o: "reorder_buffer example_elf = Inr out"
      "merged_code_seg (code_segs example_elf) = Inr m" "get_H out 44 = Inr 2"
      "read_table out
       = Inr [moved (u32 example_elf 28) (u16 example_elf 42 * u16 example_elf 44)
                \<lparr>p_type = 1, p_offset = 180, p_vaddr = 0, p_paddr = 0, p_filesz = 4,
                 p_memsz = 4, p_flags = 4, p_align = 4\<rparr>,
              moved (u32 example_elf 28) (u16 example_elf 42 * u16 example_elf 44) m]"
      "int (length out)
       = int (length example_elf) - (u16 example_elf 44 - 2) * u16 example_elf 42"
    by blast
  have m: "m = \<lparr>p_type = 1, p_offset = 184, p_vaddr = 4096, p_paddr = 4096, p_filesz = 8,
                p_memsz = 520, p_flags = 7, p_align = 4\<rparr>"
    using o(2) example_elf_merged by simp
  show ?thesis
    using o(1,3,4,5) unfolding m
    by (intro exI [of _ out]) (simp add: example_elf_header moved_def shifted_def)
qed

section \<open>The position of the new table\<close>

text \<open>
  On the well-formed file of 164 bytes, with a storage entry and one code entry,
  the position written into the header is 100, the length of the file less the
  whole old table of 2 * 32 bytes, and not 164 - (2 - 2) * 32 = 164.
\<close>

theorem single_code_elf_phoff:
  "valid_elf single_code_elf
   \<and> storage_seg single_code_elf
       = Some \<lparr>p_type = 1, p_offset = 156, p_vaddr = 0, p_paddr = 0, p_filesz = 4,
               p_memsz = 4, p_flags = 4, p_align = 4\<rparr>
   \<and> length (code_segs single_code_elf) = 1
   \<and> reorder_buffer single_code_elf = Inr single_code_out
   \<and> get_I single_code_out 28 = Inr 100
   \<and> int (length single_code_elf) - (u16 single_code_elf 44 - 2) * u16 single_code_elf 42
       = 164"
  using single_code_elf_valid single_code_elf_roles single_code_elf_run single_code_reads(6)
  by (simp add: single_code_elf_header)

text \<open>
  Claim C2, as amended. For every well-formed input with a storage entry and at
  least one code entry, the position of the program header table written into
  the header of the output is the length of the input less the size of the whole
  old table, e\_phnum * e\_phentsize (the new table is appended to what is left
  of the file once the old one is cut out); the count written is 2.
\<close>

theorem output_phoff:
  assumes "valid_elf data" "storage_seg data = Some s" "code_segs data \<noteq> []"
  shows "\<exists>out. reorder_buffer data = Inr out
           \<and> get_I out 28 = Inr (int (length data) - u16 data 44 * u16 data 42)
           \<and> get_I out 28 = Inr (int (length out) - 2 * u16 data 42)
           \<and> get_H out 44 = Inr 2"
proof -
  from merge_case [OF assms] obtain out where
    o: "reorder_buffer data = Inr out" "get_H out 44 = Inr 2"
      "int (length out) = int (length data) - 32 * u16 data 44 + 64"
      "get_I out 28 = Inr (int (length data) - 32 * u16 data 44)"
    by blast
  have e: "u16 data 42 = 32" using valid_elfD(6) [OF assms(1)] .
  show ?thesis using o e by simp
qed

text \<open>On the file of 272 bytes with four entries: 272 - 4 * 32 = 144.\<close>

theorem output_phoff_witness:
  "\<exists>out. reorder_buffer example_elf = Inr out
     \<and> get_I out 28 = Inr 144 \<and> int (length out) = 208 \<and> get_H out 44 = Inr 2"
proof -
  have ne: "code_segs example_elf \<noteq> []" by (simp add: example_elf_roles(2))
  from output_phoff [OF example_elf_valid example_elf_roles(1) ne]
  obtain out where
    o: "reorder_buffer example_elf = Inr out"
      "get_I out 28 = Inr (int (length example_elf) - u16 example_elf 44 * u16 example_elf 42)"
      "get_I out 28 = Inr (int (length out) - 2 * u16 example_elf 42)"
      "get_H out 44 = Inr 2"
    by blast
  have "int (length out) = 208" using o(2,3) by (simp add: example_elf_header)
  then show ?thesis
    using o by (intro exI [of _ out]) (simp add: example_elf_header)
qed

section \<open>A single code entry\<close>

text \<open>
  On the well-formed file of 164 bytes, whose only code entry has the address
  32768, the physical address 131072 and the alignment 4096, the second entry
  of the table written still has the physical address 131072 and the alignment
  4096: line 93 takes the entry as it is.
\<close>

theorem single_code_elf_entry_kept:
  "valid_elf single_code_elf
   \<and> code_segs single_code_elf
       = [\<lparr>p_type = 1, p_offset = 160, p_vaddr = 32768, p_paddr = 131072, p_filesz = 4,
            p_memsz = 4, p_flags = 5, p_align = 4096\<rparr>]
   \<and> reorder_buffer single_code_elf = Inr single_code_out
   \<and> read_table single_code_out
       = Inr [\<lparr>p_type = 1, p_offset = 92, p_vaddr = 0, p_paddr = 0, p_filesz = 4,
               p_memsz = 4, p_flags = 4, p_align = 4\<rparr>,
              \<lparr>p_type = 1, p_offset = 96, p_vaddr = 32768, p_paddr = 131072, p_filesz = 4,
               p_memsz = 4, p_flags = 5, p_align = 4096\<rparr>]"
  using single_code_elf_valid single_code_elf_roles(2) single_code_elf_run
    single_code_out_table
  by simp

text \<open>
  Claim C3, as amended. The merge rule is applied only to two or more code
  entries. For every well-formed input with a storage entry and exactly one code
  entry, lines 92-93 take that entry as it is, and the code entry of the output
  has the type, address, physical address, sizes, flags and alignment of the
  input's entry; only its file offset is shifted by lines 197-210.
\<close>

theorem single_code_entry_as_is:
  assumes "valid_elf data" "storage_seg data = Some s" "code_segs data = [c]"
  shows "merged_code_seg (code_segs data) = Inr c
       \<and> (\<exists>out e. reorder_buffer data = Inr out
             \<and> read_table out = Inr [moved (u32 data 28) (u16 data 42 * u16 data 44) s, e]
             \<and> e = c\<lparr>p_offset := shifted (u32 data 28) (u16 data 42 * u16 data 44)
                                     (p_offset c)\<rparr>
             \<and> p_paddr e = p_paddr c \<and> p_align e = p_align c)"
proof -
  have ne: "code_segs data \<noteq> []" using assms(3) by simp
  from merge_case [OF assms(1,2) ne] obtain out where
    o: "reorder_buffer data = Inr out"
      "read_table out
       = Inr [moved (u32 data 28) (32 * u16 data 44) s,
              moved (u32 data 28) (32 * u16 data 44) (code_entry (code_segs data))]"
    by blast
  have e: "u16 data 42 = 32" using valid_elfD(6) [OF assms(1)] .
  have m: "merged_code_seg (code_segs data) = Inr c"
    using merged_code_seg_eq [OF ne] assms(3) by simp
  show ?thesis using o m e assms(3) by (simp add: moved_def)
qed

text \<open>On the file of 164 bytes: physical address 131072 and alignment 4096 are kept.\<close>

theorem single_code_entry_as_is_witness:
  "merged_code_seg (code_segs single_code_elf)
   = Inr \<lparr>p_type = 1, p_offset = 160, p_vaddr = 32768, p_paddr = 131072, p_filesz = 4,
          p_memsz = 4, p_flags = 5, p_align = 4096\<rparr>
   \<and> (\<exists>out. reorder_buffer single_code_elf = Inr out
         \<and> read_table out
             = Inr [\<lparr>p_type = 1, p_offset = 92, p_vaddr = 0, p_paddr = 0, p_filesz = 4,
                     p_memsz = 4, p_flags = 4, p_align = 4\<rparr>,
                    \<lparr>p_type = 1, p_offset = 96, p_vaddr = 32768, p_paddr = 131072,
                     p_filesz = 4, p_memsz = 4, p_flags = 5, p_align = 4096\<rparr>])"
  using single_code_entry_as_is
    [OF single_code_elf_valid single_code_elf_roles(1) single_code_elf_roles(2)]
  by (simp add: single_code_elf_header moved_def shifted_def)

section \<open>The entry merged from several code entries\<close>

text \<open>
  Claim C5. For every well-formed input with a storage entry and two or more code
  entries (the loadable entries with an address other than 0), the entry that
  lines 62-91 compute is loadable; its file offset is the least file offset of
  the code entries; its address and its physical address are their least
  address; its file size is their greatest file end less that offset; its
  memory size is their greatest memory end less that address; and a bit is set
  in its flags exactly when it is set in the flags of some code entry. This is
  the second entry of the table of the output (with the file offset shifted by
  lines 197-210).
\<close>

theorem merged_code_entry_fields:
  assumes "valid_elf data" "storage_seg data = Some s" "1 < length (code_segs data)"
  shows "\<exists>m out.
           set (code_segs data)
             = {seg \<in> set (program_headers data). p_type seg = PT_LOAD \<and> p_vaddr seg \<noteq> 0}
           \<and> merged_code_seg (code_segs data) = Inr m
           \<and> p_type m = PT_LOAD
           \<and> p_offset m = Min (p_offset ` set (code_segs data))
           \<and> p_vaddr m = Min (p_vaddr ` set (code_segs data))
           \<and> p_paddr m = Min (p_vaddr ` set (code_segs data))
           \<and> p_filesz m = Max ((\<lambda>c. p_offset c + p_filesz c) ` set (code_segs data))
                           - Min (p_offset ` set (code_segs data))
           \<and> p_memsz m = Max ((\<lambda>c. p_vaddr c + p_memsz c) ` set (code_segs data))
                          - Min (p_vaddr ` set (code_segs data))
           \<and> (\<forall>k. bit (p_flags m) k \<longleftrightarrow> (\<exists>c\<in>set (code_segs data). bit (p_flags c) k))
           \<and> reorder_buffer data = Inr out
           \<and> read_table out
               = Inr [moved (u32 data 28) (u16 data 42 * u16 data 44) s,
                      moved (u32 data 28) (u16 data 42 * u16 data 44) m]"
proof -
  let ?cs = "code_segs data"
  have ne: "?cs \<noteq> []" using assms(3) by auto
  from merge_case [OF assms(1,2) ne] obtain out where
    o: "reorder_buffer data = Inr out"
      "read_table out
       = Inr [moved (u32 data 28) (32 * u16 data 44) s,
              moved (u32 data 28) (32 * u16 data 44) (code_entry ?cs)]"
    by blast
  have e: "u16 data 42 = 32" using valid_elfD(6) [OF assms(1)] .
  have ce: "code_entry ?cs = merged_segment ?cs" using assms(3) by (simp add: code_entry_def)
  have m: "merged_code_seg ?cs = Inr (merged_segment ?cs)"
    using merged_code_seg_eq [OF ne] ce by simp
  have s: "set ?cs = {seg \<in> set (program_headers data). p_type seg = PT_LOAD \<and> p_vaddr seg \<noteq> 0}"
    by (auto simp: code_segs_eq)
  have b: "\<forall>k. bit (p_flags (merged_segment ?cs)) k \<longleftrightarrow> (\<exists>c\<in>set ?cs. bit (p_flags c) k)"
    by (simp add: merged_segment_def bit_fold_or)
  have f: "p_type (merged_segment ?cs) = PT_LOAD"
    "p_offset (merged_segment ?cs) = Min (p_offset ` set ?cs)"
    "p_vaddr (merged_segment ?cs) = Min (p_vaddr ` set ?cs)"
    "p_paddr (merged_segment ?cs) = Min (p_vaddr ` set ?cs)"
    "p_filesz (merged_segment ?cs)
     = Max ((\<lambda>c. p_offset c + p_filesz c) ` set ?cs) - Min (p_offset ` set ?cs)"
    "p_memsz (merged_segment ?cs)
     = Max ((\<lambda>c. p_vaddr c + p_memsz c) ` set ?cs) - Min (p_vaddr ` set ?cs)"
    by (simp_all add: merged_segment_def)
  have t: "read_table out
           = Inr [moved (u32 data 28) (u16 data 42 * u16 data 44) s,
                  moved (u32 data 28) (u16 data 42 * u16 data 44) (merged_segment ?cs)]"
    using o(2) ce e by simp
  show ?thesis
    using s m f b o(1) t by blast
qed

text \<open>
  On the file of 272 bytes, whose code entries have the offsets 184 and 188, the
  addresses 4096 and 4608, the ends 188 and 192 in the file and 4100 and 4616 in
  memory, and the flags 5 and 6.
\<close>

theorem merged_code_entry_fields_witness:
  "\<exists>out. merged_code_seg (code_segs example_elf)
           = Inr \<lparr>p_type = 1, p_offset = 184, p_vaddr = 4096, p_paddr = 4096, p_filesz = 8,
                  p_memsz = 520, p_flags = 7, p_align = 4\<rparr>
     \<and> reorder_buffer example_elf = Inr out
     \<and> read_table out
         = Inr [\<lparr>p_type = 1, p_offset = 52, p_vaddr = 0, p_paddr = 0, p_filesz = 4,
                 p_memsz = 4, p_flags = 4, p_align = 4\<rparr>,
                \<lparr>p_type = 1, p_offset = 56, p_vaddr = 4096, p_paddr = 4096, p_filesz = 8,
                 p_memsz = 520, p_flags = 7, p_align = 4\<rparr>]"
proof -
  have l: "1 < length (code_segs example_elf)" by (simp add: example_elf_roles(2))
  from merged_code_entry_fields [OF example_elf_valid example_elf_roles(1) l]
  obtain m out where
    o: "merged_code_seg (code_segs example_elf) = Inr m"
      "reorder_buffer example_elf = Inr out"
      "read_table out
       = Inr [moved (u32 example_elf 28) (u16 example_elf 42 * u16 example_elf 44)
                \<lparr>p_type = 1, p_offset = 180, p_vaddr = 0, p_paddr = 0, p_filesz = 4,
                 p_memsz = 4, p_flags = 4, p_align = 4\<rparr>,
              moved (u32 example_elf 28) (u16 example_elf 42 * u16 example_elf 44) m]"
    by blast
  have m: "m = \<lparr>p_type = 1, p_offset = 184, p_vaddr = 4096, p_paddr = 4096, p_filesz = 8,
                p_memsz = 520, p_flags = 7, p_align = 4\<rparr>"
    using o(1) example_elf_merged by simp
  show ?thesis
    using o(2,3) example_elf_merged unfolding m
    by (intro exI [of _ out]) (simp add: example_elf_header moved_def shifted_def)
qed

section \<open>A second run\<close>

text \<open>
  Claim C8. For every well-formed input with a storage entry and at least one
  code entry, the run returns a buffer, and a run on that buffer returns a buffer
  again; the second output has the same count of program headers (2) and the same
  position of the program header table as the first, and also the same table
  and the same length.
\<close>

theorem second_run_fixed_point:
  assumes "valid_elf data" "storage_seg data = Some s" "code_segs data \<noteq> []"
  shows "\<exists>out out2 phoff. reorder_buffer data = Inr out \<and> reorder_buffer out = Inr out2
           \<and> get_H out 44 = Inr 2 \<and> get_H out2 44 = Inr 2
           \<and> get_I out 28 = Inr phoff \<and> get_I out2 28 = Inr phoff
           \<and> read_table out2 = read_table out
           \<and> length out2 = length out"
proof -
  from merge_case [OF assms] obtain out out2 where
    "reorder_buffer data = Inr out" "get_H out 44 = Inr 2"
    "get_I out 28 = Inr (int (length data) - 32 * u16 data 44)"
    "reorder_buffer out = Inr out2" "get_H out2 44 = Inr 2"
    "get_I out2 28 = Inr (int (length data) - 32 * u16 data 44)"
    "read_table out2 = read_table out" "length out2 = length out"
    by blast
  then show ?thesis by blast
qed

text \<open>On the file of 272 bytes: two entries at 144 after the first run and after the second.\<close>

theorem second_run_fixed_point_witness:
  "\<exists>out out2. reorder_buffer example_elf = Inr out \<and> reorder_buffer out = Inr out2
     \<and> get_H out 44 = Inr 2 \<and> get_H out2 44 = Inr 2
     \<and> get_I out 28 = get_I out2 28
     \<and> read_table out2 = read_table out \<and> length out2 = length out"
proof -
  have ne: "code_segs example_elf \<noteq> []" by (simp add: example_elf_roles(2))
  from second_run_fixed_point [OF example_elf_valid example_elf_roles(1) ne]
  obtain out out2 phoff where
    "reorder_buffer example_elf = Inr out" "reorder_buffer out = Inr out2"
    "get_H out 44 = Inr 2" "get_H out2 44 = Inr 2"
    "get_I out 28 = Inr phoff" "get_I out2 28 = Inr phoff"
    "read_table out2 = read_table out" "length out2 = length out"
    by blast
  then show ?thesis by (intro exI [of _ out] exI [of _ out2]) simp
qed

section \<open>Entries that are not loadable\<close>

text \<open>
  Claim C9. For every well-formed input with a storage entry and at least one
  code entry, whatever other entries its table has, the table of the output,
  read back, has two entries and both are loadable: no entry of another type
  is written.
\<close>

theorem output_entries_loadable:
  assumes "valid_elf data" "storage_seg data = Some s" "code_segs data \<noteq> []"
  shows "\<exists>out tbl. reorder_buffer data = Inr out \<and> get_H out 44 = Inr 2
           \<and> read_table out = Inr tbl \<and> length tbl = 2
           \<and> (\<forall>seg\<in>set tbl. p_type seg = PT_LOAD)"
proof -
  from merge_case [OF assms] obtain out where
    o: "reorder_buffer data = Inr out" "get_H out 44 = Inr 2"
      "read_table out
       = Inr [moved (u32 data 28) (32 * u16 data 44) s,
              moved (u32 data 28) (32 * u16 data 44) (code_entry (code_segs data))]"
    by blast
  note r = merged_roles(1,4) [OF assms]
  show ?thesis
    using o r
    by (intro exI [of _ out]
          exI [of _ "[moved (u32 data 28) (32 * u16 data 44) s,
                      moved (u32 data 28) (32 * u16 data 44) (code_entry (code_segs data))]"])
       simp
qed

text \<open>On the file of 272 bytes, whose third entry is a note entry (type 4).\<close>

theorem output_entries_loadable_witness:
  "read_table example_elf
   = Inr [\<lparr>p_type = 1, p_offset = 180, p_vaddr = 0, p_paddr = 0, p_filesz = 4, p_memsz = 4,
           p_flags = 4, p_align = 4\<rparr>,
          \<lparr>p_type = 1, p_offset = 184, p_vaddr = 4096, p_paddr = 4096, p_filesz = 4,
           p_memsz = 4, p_flags = 5, p_align = 16\<rparr>,
          \<lparr>p_type = 4, p_offset = 188, p_vaddr = 0, p_paddr = 0, p_filesz = 4, p_memsz = 4,
           p_flags = 4, p_align = 4\<rparr>,
          \<lparr>p_type = 1, p_offset = 188, p_vaddr = 4608, p_paddr = 4608, p_filesz = 4,
           p_memsz = 8, p_flags = 6, p_align = 8\<rparr>]
   \<and> (\<exists>out tbl. reorder_buffer example_elf = Inr out \<and> get_H out 44 = Inr 2
         \<and> read_table out = Inr tbl \<and> length tbl = 2
         \<and> list_all (\<lambda>seg. p_type seg = 1) tbl)"
proof -
  have ne: "code_segs example_elf \<noteq> []" by (simp add: example_elf_roles(2))
  from output_entries_loadable [OF example_elf_valid example_elf_roles(1) ne]
  show ?thesis using example_elf_table by (simp add: PT_LOAD_def list_all_iff)
qed

section \<open>The data offsets of the section headers\<close>




section \<open>A table without a storage entry\<close>

text \<open>
  The well-formed file of 124 bytes has no loadable entry at address 0 (its
  entries are a loadable one at address 32768 and a note entry). The script
  does not fail on it: it exits with status 0 and the output file is written.
\<close>

theorem no_storage_elf_output_written:
  "valid_elf no_storage_elf
   \<and> read_table no_storage_elf
       = Inr [\<lparr>p_type = 1, p_offset = 116, p_vaddr = 32768, p_paddr = 32768, p_filesz = 4,
               p_memsz = 4, p_flags = 5, p_align = 4\<rparr>,
              \<lparr>p_type = 4, p_offset = 120, p_vaddr = 0, p_paddr = 0, p_filesz = 4,
               p_memsz = 4, p_flags = 4, p_align = 4\<rparr>]
   \<and> storage_seg no_storage_elf = None
   \<and> reorder_elf (Map.empty(''in.elf'' \<mapsto> no_storage_elf)) ''in.elf'' ''out.stldr''
       = (Map.empty(''in.elf'' \<mapsto> no_storage_elf, ''out.stldr'' \<mapsto> no_storage_out), Inr ())
   \<and> main (Map.empty(''in.elf'' \<mapsto> no_storage_elf))
        [''reorder_elf.py'', ''in.elf'', ''out.stldr'']
       = (Map.empty(''in.elf'' \<mapsto> no_storage_elf, ''out.stldr'' \<mapsto> no_storage_out), 0)"
  using no_storage_elf_valid no_storage_elf_table no_storage_elf_roles no_storage_elf_run
  by (simp add: main_def reorder_elf_def)

text \<open>
  Claim C1, as amended. For every well-formed input in which no loadable entry
  has the address 0, the merge does not fail: after its warning (lines 53-55) it
  returns the table and the count it was given, and the run goes on to write the
  output file and returns True.
\<close>

theorem no_storage_still_written:
  assumes "valid_elf data" "storage_seg data = None" "fs input_file = Some data"
  shows "(\<forall>seg\<in>set (program_headers data). \<not> (p_type seg = PT_LOAD \<and> p_vaddr seg = 0))
       \<and> merge_load_segments
           (py_slice data (u32 data 28) (u32 data 28 + u16 data 42 * u16 data 44))
           (u16 data 42) (u16 data 44)
         = Inr (py_slice data (u32 data 28) (u32 data 28 + u16 data 42 * u16 data 44),
                u16 data 44)
       \<and> (\<exists>out. reorder_elf fs input_file output_file = (fs(output_file \<mapsto> out), Inr ()))"
proof -
  have e: "u16 data 42 = 32" using valid_elfD(6) [OF assms(1)] .
  have "merge_load_segments
          (py_slice data (u32 data 28) (u32 data 28 + 32 * u16 data 44)) 32 (u16 data 44)
        = Inr (py_slice data (u32 data 28) (u32 data 28 + 32 * u16 data 44), u16 data 44)"
    using assms(2)
    by (intro merge_returns_input [OF parse_valid [OF assms(1)] classify_roles]) simp
  then have m: "merge_load_segments
           (py_slice data (u32 data 28) (u32 data 28 + u16 data 42 * u16 data 44))
           (u16 data 42) (u16 data 44)
         = Inr (py_slice data (u32 data 28) (u32 data 28 + u16 data 42 * u16 data 44),
                u16 data 44)"
    using e by simp
  from keep_case [OF assms(1)] assms(2) obtain out where "reorder_buffer data = Inr out"
    by blast
  then have "reorder_elf fs input_file output_file = (fs(output_file \<mapsto> out), Inr ())"
    using assms(3) by (simp add: reorder_elf_def)
  then show ?thesis using m assms(2) storage_seg_None [of data] by blast
qed

text \<open>On the file of 124 bytes, whose table of two entries is at 52.\<close>

theorem no_storage_still_written_witness:
  "merge_load_segments (py_slice no_storage_elf 52 116) 32 2
   = Inr (py_slice no_storage_elf 52 116, 2)
   \<and> (\<exists>out. reorder_elf (Map.empty(''in.elf'' \<mapsto> no_storage_elf)) ''in.elf'' ''out.stldr''
             = (Map.empty(''in.elf'' \<mapsto> no_storage_elf, ''out.stldr'' \<mapsto> out), Inr ()))"
  using no_storage_still_written
    [OF no_storage_elf_valid no_storage_elf_roles,
     of "Map.empty(''in.elf'' \<mapsto> no_storage_elf)" "''in.elf''" "''out.stldr''"]
  by (simp add: no_storage_elf_header)

section \<open>The run that keeps the table\<close>

text \<open>
  The file of 124 bytes whose loadable entry has the file offset 60 passes the
  validation and has no loadable entry at address 0, yet no output is written
  and the exit status is 1: line 207 is to write 60 - 64, and
  \<^verbatim>\<open>struct.pack_into\<close> raises struct.error.
\<close>

theorem bad_offset_elf_fails:
  "check_ident bad_offset_elf = Inr ()
   \<and> read_table bad_offset_elf
       = Inr [\<lparr>p_type = 1, p_offset = 60, p_vaddr = 32768, p_paddr = 32768, p_filesz = 4,
               p_memsz = 4, p_flags = 5, p_align = 4\<rparr>,
              \<lparr>p_type = 4, p_offset = 120, p_vaddr = 0, p_paddr = 0, p_filesz = 4,
               p_memsz = 4, p_flags = 4, p_align = 4\<rparr>]
   \<and> storage_seg bad_offset_elf = None
   \<and> reorder_buffer bad_offset_elf = Inl StructError
   \<and> main (Map.empty(''in.elf'' \<mapsto> bad_offset_elf))
        [''reorder_elf.py'', ''in.elf'', ''out.stldr'']
       = (Map.empty(''in.elf'' \<mapsto> bad_offset_elf), 1)"
  using bad_offset_elf_reads bad_offset_elf_run
  by (simp add: main_def reorder_elf_def)

text \<open>
  Claim C10, as amended. For every well-formed input that has no loadable entry
  at address 0, or no loadable entry at another address, the script writes the
  output file and exits with status 0. The output has the length of the input;
  the position of the program header table in its header is the end of the file
  once the old table is cut out (the length of the input less e\_phentsize *
  e\_phnum), where the table is appended; the count in the header is the
  original one; the table, read back, has all the entries of the input's table
  in order, those that are not loadable too, each unchanged but for the file
  offset, which lines 197-210 have shifted; and e\_shoff and the data offsets of
  the section headers are shifted by lines 185-187 and 213-225 when e\_shoff is
  greater than e\_phoff.
\<close>

theorem no_storage_or_code_keeps_table:
  assumes "valid_elf data" "storage_seg data = None \<or> code_segs data = []"
    "fs input_file = Some data"
  shows "\<exists>out. main fs [prog, input_file, output_file] = (fs(output_file \<mapsto> out), 0)
           \<and> reorder_elf fs input_file output_file = (fs(output_file \<mapsto> out), Inr ())
           \<and> int (length out) = int (length data)
           \<and> get_I out 28 = Inr (int (length data) - u16 data 42 * u16 data 44)
           \<and> get_H out 44 = Inr (u16 data 44)
           \<and> read_table data = Inr (program_headers data)
           \<and> read_table out
               = Inr (map (\<lambda>seg. seg\<lparr>p_offset := shifted (u32 data 28)
                                          (u16 data 42 * u16 data 44) (p_offset seg)\<rparr>)
                        (program_headers data))
           \<and> get_I out 32
               = Inr (if u32 data 28 < u32 data 32
                      then u32 data 32 - u16 data 42 * u16 data 44 else u32 data 32)
           \<and> (u32 data 28 < u32 data 32 \<longrightarrow>
                read_sh_offsets out
                = Inr (map (shifted_sh (u32 data 28) (u16 data 42 * u16 data 44))
                         (sh_offsets data)))"
proof -
  from keep_case [OF assms(1,2)] obtain out where
    o: "reorder_buffer data = Inr out" "int (length out) = int (length data)"
      "get_I out 28 = Inr (int (length data) - 32 * u16 data 44)"
      "get_H out 44 = Inr (u16 data 44)"
      "read_table out
       = Inr (map (moved (u32 data 28) (32 * u16 data 44)) (program_headers data))"
      "get_I out 32 = Inr (if u32 data 28 < u32 data 32
                           then u32 data 32 - 32 * u16 data 44 else u32 data 32)"
      "u32 data 28 < u32 data 32 \<longrightarrow>
         read_sh_offsets out
         = Inr (map (shifted_sh (u32 data 28) (32 * u16 data 44)) (sh_offsets data))"
    by blast
  have e: "u16 data 42 = 32" using valid_elfD(6) [OF assms(1)] .
  have w: "reorder_elf fs input_file output_file = (fs(output_file \<mapsto> out), Inr ())"
    using assms(3) o(1) by (simp add: reorder_elf_def)
  then have m: "main fs [prog, input_file, output_file] = (fs(output_file \<mapsto> out), 0)"
    by (simp add: main_def)
  have mv: "moved (u32 data 28) (32 * u16 data 44)
            = (\<lambda>seg. seg\<lparr>p_offset := shifted (u32 data 28) (u16 data 42 * u16 data 44)
                                       (p_offset seg)\<rparr>)"
    using e by (simp add: moved_def fun_eq_iff)
  show ?thesis
    using m w o(2,3,4,6,7) o(5) [unfolded mv] read_table_valid [OF assms(1)] e
    by (intro exI [of _ out]) simp
qed

text \<open>
  On the file of 124 bytes without a storage entry: both entries are written,
  the note entry too, with the file offsets 116 and 120 shifted to 52 and 56;
  the table is at 60 = 124 - 64.
\<close>

theorem no_storage_or_code_keeps_table_witness:
  "\<exists>out. main (Map.empty(''in.elf'' \<mapsto> no_storage_elf))
            [''reorder_elf.py'', ''in.elf'', ''out.stldr'']
          = (Map.empty(''in.elf'' \<mapsto> no_storage_elf, ''out.stldr'' \<mapsto> out), 0)
     \<and> int (length out) = 124
     \<and> get_I out 28 = Inr 60
     \<and> get_H out 44 = Inr 2
     \<and> read_table out
         = Inr [\<lparr>p_type = 1, p_offset = 52, p_vaddr = 32768, p_paddr = 32768, p_filesz = 4,
                 p_memsz = 4, p_flags = 5, p_align = 4\<rparr>,
                \<lparr>p_type = 4, p_offset = 56, p_vaddr = 0, p_paddr = 0, p_filesz = 4,
                 p_memsz = 4, p_flags = 4, p_align = 4\<rparr>]
     \<and> get_I out 32 = Inr 0"
proof -
  have k: "storage_seg no_storage_elf = None \<or> code_segs no_storage_elf = []"
    using no_storage_elf_roles by simp
  have f: "(Map.empty(''in.elf'' \<mapsto> no_storage_elf)) ''in.elf'' = Some no_storage_elf"
    by simp
  from no_storage_or_code_keeps_table
    [where fs = "Map.empty(''in.elf'' \<mapsto> no_storage_elf)" and input_file = "''in.elf''"
       and prog = "''reorder_elf.py''" and output_file = "''out.stldr''",
     OF no_storage_elf_valid k f]
  obtain out where
    o: "main (Map.empty(''in.elf'' \<mapsto> no_storage_elf))
            [''reorder_elf.py'', ''in.elf'', ''out.stldr'']
          = (Map.empty(''in.elf'' \<mapsto> no_storage_elf, ''out.stldr'' \<mapsto> out), 0)"
      "int (length out) = int (length no_storage_elf)"
      "get_I out 28
       = Inr (int (length no_storage_elf) - u16 no_storage_elf 42 * u16 no_storage_elf 44)"
      "get_H out 44 = Inr (u16 no_storage_elf 44)"
      "read_table out
       = Inr (map (\<lambda>seg. seg\<lparr>p_offset := shifted (u32 no_storage_elf 28)
                                  (u16 no_storage_elf 42 * u16 no_storage_elf 44)
                                  (p_offset seg)\<rparr>)
                (program_headers no_storage_elf))"
      "get_I out 32
       = Inr (if u32 no_storage_elf 28 < u32 no_storage_elf 32
              then u32 no_storage_elf 32 - u16 no_storage_elf 42 * u16 no_storage_elf 44
              else u32 no_storage_elf 32)"
    by blast
  show ?thesis
    using o
    by (intro exI [of _ out])
       (simp add: no_storage_elf_header no_storage_elf_table(1) shifted_def)
qed

end
